theory Spec2Isabelle
  imports Complex_Main "HOL-Library.Multiset" "HOL-Library.Sublist" "HOL-Library.Char_ord"
    "HOL-Library.List_Lexorder"
begin

section \<open>Text\<close>

text \<open>
  Python text is modelled as \<open>string\<close>, one \<open>char\<close> per character. The paths and
  patterns of the statements below are ASCII. The host is taken to be POSIX: the separator
  is the slash and \<open>os.path.normcase\<close> is the identity.
\<close>

definition bslash :: char where
  "bslash = CHR 0x5C"

definition startswith :: "string \<Rightarrow> string \<Rightarrow> bool" where
  "startswith s p = (take (length p) s = p)"

definition endswith :: "string \<Rightarrow> string \<Rightarrow> bool" where
  "endswith s p = (length p \<le> length s \<and> drop (length s - length p) s = p)"

text \<open>\<open>s.lstrip(chars)\<close> and \<open>s.rstrip(chars)\<close>: every leading (trailing) character that
  occurs in \<open>chars\<close> goes, whatever the order.\<close>

definition lstrip :: "string \<Rightarrow> string \<Rightarrow> string" where
  "lstrip chars s = dropWhile (\<lambda>c. c \<in> set chars) s"

definition rstrip :: "string \<Rightarrow> string \<Rightarrow> string" where
  "rstrip chars s = rev (dropWhile (\<lambda>c. c \<in> set chars) (rev s))"

text \<open>\<open>s.replace(old, new)\<close>: the occurrences of \<open>old\<close> are replaced from the left and do
  not overlap; an empty \<open>old\<close> matches before every character and at the end.\<close>

function str_replace :: "string \<Rightarrow> string \<Rightarrow> string \<Rightarrow> string" where
  "str_replace [] old new = (if old = [] then new else [])"
| "str_replace (c # cs) old new =
     (if old = [] then new @ c # str_replace cs old new
      else if take (length old) (c # cs) = old
           then new @ str_replace (drop (length old) (c # cs)) old new
      else c # str_replace cs old new)"
  by pat_completeness auto
termination
  by (relation "measure (\<lambda>(s, old, new). length s)") auto

text \<open>\<open>s.split(sep)\<close> for a one-character separator: never empty, \<open>"".split("/") == [""]\<close>.\<close>

fun split :: "char \<Rightarrow> string \<Rightarrow> string list" where
  "split sep [] = [[]]"
| "split sep (c # cs) =
     (if c = sep then [] # split sep cs
      else (case split sep cs of [] \<Rightarrow> [[c]] | w # ws \<Rightarrow> (c # w) # ws))"

fun join :: "string \<Rightarrow> string list \<Rightarrow> string" where
  "join sep [] = []"
| "join sep [w] = w"
| "join sep (w # v # ws) = w @ sep @ join sep (v # ws)"

text \<open>\<open>os.path.basename\<close> on POSIX: what follows the last slash.\<close>

definition basename :: "string \<Rightarrow> string" where
  "basename p = rev (takeWhile (\<lambda>c. c \<noteq> CHR ''/'') (rev p))"

text \<open>\<open>any(f(x) for x in xs)\<close>: the first hit ends the scan.\<close>

fun any_py :: "('a \<Rightarrow> bool) \<Rightarrow> 'a list \<Rightarrow> bool" where
  "any_py f [] = False"
| "any_py f (x # xs) = (if f x then True else any_py f xs)"

section \<open>The matcher of the standard library\<close>

text \<open>
  \<open>fnmatch.fnmatch(name, pat)\<close> belongs to the Python library, not to the repository. It is
  modelled by its documented meaning: \<open>*\<close> matches any run of characters (slashes too),
  \<open>?\<close> one character, \<open>[seq]\<close> one character of \<open>seq\<close>, \<open>[!seq]\<close> one character
  not in \<open>seq\<close>; a bracket with no closing bracket is a literal; the whole name has to match.
  The closing bracket is looked for as the library does: after an optional \<open>!\<close> and an
  optional \<open>]\<close> that counts as a member.
\<close>

datatype glob_tok = Star | AnyChar | Lit char | Class bool "(char \<times> char) list"

fun split_at_close :: "string \<Rightarrow> (string \<times> string) option" where
  "split_at_close [] = None"
| "split_at_close (c # cs) =
     (if c = CHR '']'' then Some ([], cs)
      else (case split_at_close cs of None \<Rightarrow> None | Some (a, b) \<Rightarrow> Some (c # a, b)))"

definition bracket_end :: "string \<Rightarrow> (bool \<times> string \<times> string) option" where
  "bracket_end cs =
     (let (neg, cs1) = (case cs of c # r \<Rightarrow> if c = CHR ''!'' then (True, r) else (False, cs)
                                 | [] \<Rightarrow> (False, cs));
          (br, cs2) = (case cs1 of c # r \<Rightarrow> if c = CHR '']'' then ([c], r) else ([], cs1)
                                 | [] \<Rightarrow> ([], cs1))
      in (case split_at_close cs2 of None \<Rightarrow> None
          | Some (a, b) \<Rightarrow> Some (neg, br @ a, b)))"

text \<open>The members of a bracket: \<open>a-b\<close> is a range, empty when \<open>b\<close> comes before
  \<open>a\<close>; any other character stands for itself.\<close>

fun class_items :: "string \<Rightarrow> (char \<times> char) list" where
  "class_items (a # h # b # rest) =
     (if h = CHR ''-'' then (a, b) # class_items rest else (a, a) # class_items (h # b # rest))"
| "class_items (a # rest) = (a, a) # class_items rest"
| "class_items [] = []"

lemma split_at_close_length:
  "split_at_close cs = Some (a, b) \<Longrightarrow> length b < length cs"
  by (induction cs arbitrary: a b) (auto split: if_splits option.splits)

lemma bracket_end_length:
  "bracket_end cs = Some (neg, a, b) \<Longrightarrow> length b \<le> length cs"
  by (auto simp: bracket_end_def Let_def split: list.splits if_splits option.splits
           dest!: split_at_close_length)

function translate :: "string \<Rightarrow> glob_tok list" where
  "translate [] = []"
| "translate (c # cs) =
     (if c = CHR ''*'' then
        (case translate cs of Star # ts \<Rightarrow> Star # ts | ts \<Rightarrow> Star # ts)
      else if c = CHR ''?'' then AnyChar # translate cs
      else if c = CHR ''['' then
        (case bracket_end cs of
           None \<Rightarrow> Lit c # translate cs
         | Some (neg, stuff, rest) \<Rightarrow> Class neg (class_items stuff) # translate rest)
      else Lit c # translate cs)"
  by pat_completeness auto
termination
  by (relation "measure length") (auto dest!: bracket_end_length)

fun tok_ok :: "glob_tok \<Rightarrow> char \<Rightarrow> bool" where
  "tok_ok Star c = True"
| "tok_ok AnyChar c = True"
| "tok_ok (Lit d) c = (c = d)"
| "tok_ok (Class neg items) c =
     (any_py (\<lambda>(lo, hi). (of_char lo :: nat) \<le> of_char c \<and> (of_char c :: nat) \<le> of_char hi) items
      \<noteq> neg)"

fun glob_match :: "glob_tok list \<Rightarrow> string \<Rightarrow> bool" where
  "glob_match [] s = (s = [])"
| "glob_match (Star # ts) [] = glob_match ts []"
| "glob_match (Star # ts) (c # cs) = (glob_match ts (c # cs) \<or> glob_match (Star # ts) cs)"
| "glob_match (t # ts) [] = False"
| "glob_match (t # ts) (c # cs) = (tok_ok t c \<and> glob_match ts cs)"

definition fnmatch :: "string \<Rightarrow> string \<Rightarrow> bool" where
  "fnmatch name pat = glob_match (translate pat) name"

section \<open>Gitignore rules\<close>

text \<open>\<open>sub in s\<close> for two strings.\<close>

fun contains :: "string \<Rightarrow> string \<Rightarrow> bool" where
  "contains [] sub = (sub = [])"
| "contains (c # cs) sub = (if take (length sub) (c # cs) = sub then True else contains cs sub)"

text \<open>
  \<open>_matches_gitignore_pattern(rel_path, pattern)\<close>. The four cases of the source in its
  order: a rule that ends in a slash, a rule that starts with one, a rule with a slash
  inside, a plain name. The last loop tries every segment and every leading part of the path.
\<close>

definition matches_gitignore_pattern :: "string \<Rightarrow> string \<Rightarrow> bool" where
  "matches_gitignore_pattern rel_path0 pattern0 =
     (let rel_path = str_replace rel_path0 [bslash] ''/'';
          pattern = str_replace pattern0 [bslash] ''/''
      in if endswith pattern ''/'' then
           (let pattern = rstrip ''/'' pattern
            in if fnmatch rel_path pattern then True
               else if fnmatch rel_path (pattern @ ''/**'') then True
               else if fnmatch rel_path (''*/'' @ pattern) then True
               else if fnmatch rel_path (''*/'' @ pattern @ ''/**'') then True
               else False)
         else if startswith pattern ''/'' then fnmatch rel_path (drop 1 pattern)
         else if contains pattern ''/'' then
           (if fnmatch rel_path pattern then True
            else if fnmatch rel_path (''**/'' @ pattern) then True
            else False)
         else if fnmatch (basename rel_path) pattern then True
         else (let parts = split CHR ''/'' rel_path
               in any_py (\<lambda>i. if fnmatch (parts ! i) pattern then True
                                else fnmatch (join ''/'' (take (i + 1) parts)) pattern)
                         [0..<length parts]))"

definition should_exclude_by_gitignore :: "string \<Rightarrow> string list \<Rightarrow> bool" where
  "should_exclude_by_gitignore rel_path patterns =
     any_py (\<lambda>pattern. matches_gitignore_pattern rel_path pattern) patterns"

section \<open>Exclude patterns\<close>

text \<open>
  \<open>re.escape\<close> puts a backslash before each of the characters below. The expression that
  \<open>_matches_exclude_pattern\<close> builds from the escaped pattern uses four constructs only:
  an escaped or plain character, \<open>.\<close> (any character but the newline), \<open>.*\<close> (any run
  of them) and \<open>[^/]*\<close> (any run without a slash). \<open>re_parse\<close> reads exactly these and
  answers \<open>None\<close> on anything else, which stands for \<open>re.error\<close>. The closing \<open>$\<close>
  accepts the end of the text and the place before a final newline.
\<close>

definition re_special :: "char list" where
  "re_special = ''()[]{}?*+-|^$.&~# '' @ [bslash, CHR 0x09, CHR 0x0A, CHR 0x0D, CHR 0x0B, CHR 0x0C]"

definition re_escape :: "string \<Rightarrow> string" where
  "re_escape s = concat (map (\<lambda>c. if c \<in> set re_special then [bslash, c] else [c]) s)"

datatype re_tok = RLit char | RDot | RDotStar | RNoSlashStar

function re_parse :: "string \<Rightarrow> re_tok list option" where
  "re_parse [] = Some []"
| "re_parse (c # cs) =
     (if c = bslash then
        (case cs of [] \<Rightarrow> None
         | d # r \<Rightarrow> if d \<in> set re_special then map_option (Cons (RLit d)) (re_parse r) else None)
      else if take 2 (c # cs) = ''.*'' then map_option (Cons RDotStar) (re_parse (drop 1 cs))
      else if c = CHR ''.'' then map_option (Cons RDot) (re_parse cs)
      else if take 5 (c # cs) = ''[^/]*'' then map_option (Cons RNoSlashStar) (re_parse (drop 4 cs))
      else if c \<in> set re_special then None
      else map_option (Cons (RLit c)) (re_parse cs))"
  by pat_completeness auto
termination
  by (relation "measure length") auto

fun re_run :: "re_tok list \<Rightarrow> string \<Rightarrow> bool" where
  "re_run [] s = (s = [] \<or> s = [CHR 0x0A])"
| "re_run (RDotStar # ts) [] = re_run ts []"
| "re_run (RDotStar # ts) (c # cs) =
     (re_run ts (c # cs) \<or> (c \<noteq> CHR 0x0A \<and> re_run (RDotStar # ts) cs))"
| "re_run (RNoSlashStar # ts) [] = re_run ts []"
| "re_run (RNoSlashStar # ts) (c # cs) =
     (re_run ts (c # cs) \<or> (c \<noteq> CHR ''/'' \<and> re_run (RNoSlashStar # ts) cs))"
| "re_run (RDot # ts) [] = False"
| "re_run (RDot # ts) (c # cs) = (c \<noteq> CHR 0x0A \<and> re_run ts cs)"
| "re_run (RLit d # ts) [] = False"
| "re_run (RLit d # ts) (c # cs) = (c = d \<and> re_run ts cs)"

text \<open>\<open>re.match(regex, text)\<close> for an expression of the form \<open>^...$\<close>.\<close>

definition re_match :: "string \<Rightarrow> string \<Rightarrow> bool option" where
  "re_match regex s =
     (if 2 \<le> length regex \<and> hd regex = CHR ''^'' \<and> last regex = CHR ''$''
      then map_option (\<lambda>ts. re_run ts s) (re_parse (butlast (tl regex)))
      else None)"

definition matches_exclude_pattern :: "string \<Rightarrow> string \<Rightarrow> bool" where
  "matches_exclude_pattern rel_path0 pattern0 =
     (let rel_path = str_replace rel_path0 [bslash] ''/'';
          pattern = str_replace pattern0 [bslash] ''/''
      in if contains pattern ''**'' then
           (let base = str_replace (str_replace pattern ''/**'' []) ''**/'' []
            in if \<not> contains base ''/'' then
                 any_py (\<lambda>part. fnmatch part base) (split CHR ''/'' rel_path)
               else
                 (let regex_pattern = re_escape pattern;
                      regex_pattern = str_replace regex_pattern [bslash, CHR ''*'', bslash, CHR ''*''] ''.*'';
                      regex_pattern = str_replace regex_pattern [bslash, CHR ''*''] ''[^/]*'';
                      regex_pattern = str_replace regex_pattern [bslash, CHR ''?''] ''.'';
                      regex_pattern = ''^'' @ regex_pattern @ ''$''
                  in (case re_match regex_pattern rel_path of
                        Some True \<Rightarrow> True
                      | Some False \<Rightarrow> False
                      | None \<Rightarrow> False)))
         else if contains pattern ''*'' \<or> contains pattern ''?'' \<or> contains pattern ''/'' then
           fnmatch rel_path pattern
         else any_py (\<lambda>part. fnmatch part pattern) (split CHR ''/'' rel_path))"

section \<open>Collecting files\<close>

text \<open>
  A \<open>pathlib\<close> path is the list of its parts, the first of which is \<open>/\<close> when the
  path is absolute. \<open>str\<close> joins the parts with slashes (the empty path prints as a
  dot), \<open>name\<close> is the last part, the root of the file system having none.
\<close>

type_synonym Path = "string list"

definition path_str :: "Path \<Rightarrow> string" where
  "path_str parts =
     (if parts = [] then ''.''
      else if hd parts = ''/'' then ''/'' @ join ''/'' (tl parts)
      else join ''/'' parts)"

definition path_name :: "Path \<Rightarrow> string" where
  "path_name parts = (if parts = [] \<or> parts = [''/''] then [] else last parts)"

text \<open>\<open>FileInfo\<close>; the fields \<open>path\<close> and \<open>size\<close> are \<open>fpath\<close> and \<open>fsize\<close> here.\<close>

record FileInfo =
  fpath :: Path
  fsize :: int
  mtime :: real

datatype error = IndexError | UnicodeDecodeError

text \<open>
  What the walk meets under the root. The rule file is absent, or cannot be opened
  (\<open>open\<close> raises \<open>OSError\<close>), or gives some lines and then fails with \<open>OSError\<close>,
  or opens and is not UTF-8, or gives its lines.
  An entry of \<open>root.rglob("*")\<close> carries its path relative to the root, whether it is a
  regular file, the type that \<open>mimetypes\<close> guesses from its name, its bytes (\<open>None\<close>
  when reading raises \<open>OSError\<close>), the size and time of \<open>stat\<close> (\<open>None\<close> when it
  raises \<open>OSError\<close>) and the answer of \<open>os.access\<close>.
\<close>

datatype gitignore_file =
  Missing | OpenFails | ReadFails "string list" | Undecodable | Lines "string list"

record entry =
  rel :: Path
  is_file :: bool
  mime :: "string option"
  content :: "nat list option"
  stat :: "(int \<times> real) option"
  readable :: bool

record filesystem =
  gitignore :: gitignore_file
  dir_at :: "string \<Rightarrow> bool"
  entries :: "entry list"

text \<open>The characters that \<open>str.strip()\<close> removes, among the first 256.\<close>

definition py_space :: "char list" where
  "py_space = [CHR 0x09, CHR 0x0A, CHR 0x0B, CHR 0x0C, CHR 0x0D, CHR 0x1C, CHR 0x1D, CHR 0x1E,
               CHR 0x1F, CHR 0x20, CHR 0x85, CHR 0xA0]"

definition strip :: "string \<Rightarrow> string" where
  "strip s = rstrip py_space (lstrip py_space s)"

text \<open>The loop of \<open>_load_gitignore_patterns\<close> over the lines of the file.\<close>

fun load_lines :: "string list \<Rightarrow> string list" where
  "load_lines [] = []"
| "load_lines (l # ls) =
     (let line = strip l
      in if line = [] \<or> startswith line ''#'' then load_lines ls
         else if startswith line ''!'' then load_lines ls
         else line # load_lines ls)"

text \<open>
  \<open>_load_gitignore_patterns\<close>: no file, no rules; \<open>OSError\<close> is caught and leaves the
  list as it is, empty when \<open>open\<close> raised it, with the rules of the lines read so far
  when a later read did; a decoding error is a \<open>ValueError\<close>, which the
  \<open>except OSError\<close> lets through.
\<close>

definition load_gitignore_patterns :: "gitignore_file \<Rightarrow> error + string list" where
  "load_gitignore_patterns gf =
     (case gf of
        Missing \<Rightarrow> Inr []
      | OpenFails \<Rightarrow> Inr []
      | ReadFails ls \<Rightarrow> Inr (load_lines ls)
      | Undecodable \<Rightarrow> Inl UnicodeDecodeError
      | Lines ls \<Rightarrow> Inr (load_lines ls))"

text \<open>\<open>is_binary_path\<close>. The test \<open>non_text / len(chunk) > 0.30\<close> on at most 8192 bytes
  holds exactly when \<open>10 * non_text > 3 * len(chunk)\<close>.\<close>

definition is_binary_path :: "entry \<Rightarrow> bool \<Rightarrow> bool" where
  "is_binary_path e strict =
     (if (case mime e of None \<Rightarrow> False | Some m \<Rightarrow> \<not> startswith m ''text'') then True
      else (case content e of
              None \<Rightarrow> True
            | Some bytes \<Rightarrow>
                (let chunk = take 8192 bytes
                 in if 0 \<in> set chunk then True
                    else if strict \<and> chunk \<noteq> [] then
                      (let non_text = length (filter (\<lambda>b. \<not> ((32 \<le> b \<and> b \<le> 126) \<or> b \<in> {9, 10, 13})) chunk)
                       in if 10 * non_text > 3 * length chunk then True else False)
                    else False)))"

text \<open>\<open>_expand\<close>, the inner function of \<open>collect_files\<close>; \<open>d\<close> answers
  \<open>(root / pat).is_dir()\<close>.\<close>

definition expand :: "(string \<Rightarrow> bool) \<Rightarrow> string \<Rightarrow> string" where
  "expand d pattern =
     (let pat = rstrip ''/'' (lstrip ''./'' (str_replace pattern [bslash] ''/''))
      in if pat = ''*'' \<or> pat = ''**'' then pat
         else if d pat then pat @ ''/**''
         else pat)"

text \<open>\<open>list(include or ["*"])\<close> and \<open>list(exclude or [])\<close> for a sequence or \<open>None\<close>.\<close>

definition default_include :: "string list option \<Rightarrow> string list" where
  "default_include inc = (case inc of None \<Rightarrow> [''*''] | Some xs \<Rightarrow> if xs = [] then [''*''] else xs)"

definition default_exclude :: "string list option \<Rightarrow> string list" where
  "default_exclude exc = (case exc of None \<Rightarrow> [] | Some xs \<Rightarrow> xs)"

definition git_included :: "string list \<Rightarrow> bool" where
  "git_included include = any_py (\<lambda>pat. startswith (lstrip ''./'' pat) ''.git'') include"

definition forced_exclude :: "string list \<Rightarrow> string list \<Rightarrow> string list" where
  "forced_exclude include exclude =
     (if \<not> git_included include then exclude @ [''.git/**'', ''.git''] else exclude)"

text \<open>The three pattern checks of the loop body, each one a \<open>continue\<close> when it fails.\<close>

definition passes_patterns ::
  "string list \<Rightarrow> string list \<Rightarrow> bool \<Rightarrow> string list \<Rightarrow> string \<Rightarrow> bool" where
  "passes_patterns include exclude use_gitignore gitignore_patterns rel_path =
     (if \<not> any_py (\<lambda>pattern. fnmatch rel_path pattern) include then False
      else if any_py (\<lambda>pattern. matches_exclude_pattern rel_path pattern) exclude then False
      else if use_gitignore \<and> should_exclude_by_gitignore rel_path gitignore_patterns then False
      else True)"

text \<open>One turn of the loop: \<open>None\<close> is \<open>continue\<close>, \<open>Some\<close> the record appended.\<close>

definition visit ::
  "string list \<Rightarrow> string list \<Rightarrow> int \<Rightarrow> bool \<Rightarrow> bool \<Rightarrow> string list \<Rightarrow> entry \<Rightarrow> FileInfo option" where
  "visit include exclude max_size binary_strict use_gitignore gitignore_patterns e =
     (let rel_path = str_replace (path_str (rel e)) [bslash] ''/''
      in if \<not> is_file e then None
         else if \<not> passes_patterns include exclude use_gitignore gitignore_patterns rel_path then None
         else if is_binary_path e binary_strict then None
         else (case stat e of
                 None \<Rightarrow> None
               | Some (st_size, st_mtime) \<Rightarrow>
                   if \<not> readable e then None
                   else if st_size > max_size then None
                   else Some \<lparr>fpath = rel e, fsize = st_size, mtime = st_mtime\<rparr>))"

definition collect_files ::
  "filesystem \<Rightarrow> string list option \<Rightarrow> string list option \<Rightarrow> int \<Rightarrow> bool \<Rightarrow> bool
   \<Rightarrow> error + FileInfo list" where
  "collect_files root_path include exclude max_size binary_strict use_gitignore =
     (case (if use_gitignore then load_gitignore_patterns (gitignore root_path) else Inr []) of
        Inl err \<Rightarrow> Inl err
      | Inr gitignore_patterns \<Rightarrow>
          (let include = map (expand (dir_at root_path)) (default_include include);
               exclude = map (expand (dir_at root_path)) (default_exclude exclude);
               exclude = forced_exclude include exclude
           in Inr (List.map_filter
                     (visit include exclude max_size binary_strict use_gitignore gitignore_patterns)
                     (entries root_path))))"

text \<open>A small tree on disk for the concrete statements: a rule file with a comment, a
  negated rule and two rules, a directory \<open>src\<close>, and four readable text files.\<close>

definition text_file :: "Path \<Rightarrow> entry" where
  "text_file p = \<lparr>rel = p, is_file = True, mime = None, content = Some [97, 98],
                  stat = Some (2, 0), readable = True\<rparr>"

definition sample_root :: filesystem where
  "sample_root =
     \<lparr>gitignore = Lines [''# logs'', ''!keep.log'', ''*.log  '', ''build/''],
      dir_at = (\<lambda>p. p = ''src'' \<or> p = ''.git''),
      entries = [text_file [''.git'', ''config''], text_file [''src'', ''a.py''],
                 text_file [''x.log''], text_file [''keep.log'']]\<rparr>"

text \<open>A second root, with two files whose names begin with a dot.\<close>

definition dot_root :: filesystem where
  "dot_root =
     \<lparr>gitignore = Missing,
      dir_at = (\<lambda>p. p = ''.github''),
      entries = [text_file [''.github'', ''ci.yml''], text_file [''.env''], text_file [''a.py'']]\<rparr>"

text \<open>A pattern from which \<open>lstrip("./")\<close> takes nothing but a leading \<open>./\<close>, once its
  backslashes are slashes: it begins with neither a dot nor a slash, or with \<open>./\<close>
  followed by neither.\<close>

definition plain_pattern :: "string \<Rightarrow> bool" where
  "plain_pattern p =
     (let q = str_replace p [bslash] ''/''
      in lstrip ''./'' q = (if startswith q ''./'' then drop 2 q else q))"

section \<open>The tree\<close>

text \<open>
  \<open>TreeNode\<close>; the field \<open>size\<close> is \<open>nsize\<close> here. Every node of a tree has one
  parent and nothing else refers to it, so the in-place updates of the source are
  functions from trees to trees.
\<close>

datatype TreeNode =
  TreeNode (name: string) (path: Path) (is_dir: bool) (nsize: int) (tokens: int)
    (children: "TreeNode list")

definition set_children :: "TreeNode \<Rightarrow> TreeNode list \<Rightarrow> TreeNode" where
  "set_children node cs = TreeNode (name node) (path node) (is_dir node) (nsize node) (tokens node) cs"

text \<open>\<open>str(int)\<close>.\<close>

fun digits :: "nat \<Rightarrow> string" where
  "digits n = (if n < 10 then [char_of (48 + n)] else digits (n div 10) @ [char_of (48 + n mod 10)])"

definition str_int :: "int \<Rightarrow> string" where
  "str_int i = (if i < 0 then ''-'' @ digits (nat (- i)) else digits (nat i))"

text \<open>
  \<open>_format_size\<close> and \<open>_format_tokens\<close>. Below the first threshold the number is printed
  as it is. Above it the source prints a floating-point quotient with one decimal,
  \<open>f"{a / b:.1f}"\<close>; that rendering is the parameter \<open>f1\<close> of the functions that print.
\<close>

definition format_size :: "(int \<Rightarrow> int \<Rightarrow> string) \<Rightarrow> int \<Rightarrow> string" where
  "format_size f1 sz =
     (if sz < 1024 then str_int sz
      else if sz < 1024 * 1024 then f1 sz 1024 @ ''K''
      else if sz < 1024 * 1024 * 1024 then f1 sz (1024 * 1024) @ ''M''
      else f1 sz (1024 * 1024 * 1024) @ ''G'')"

definition format_tokens :: "(int \<Rightarrow> int \<Rightarrow> string) \<Rightarrow> int \<Rightarrow> string" where
  "format_tokens f1 tk =
     (if tk < 1000 then str_int tk
      else if tk < 1000 * 1000 then f1 tk 1000 @ ''K''
      else if tk < 1000 * 1000 * 1000 then f1 tk (1000 * 1000) @ ''M''
      else f1 tk (1000 * 1000 * 1000) @ ''B'')"

text \<open>The \<open>for\<close> loop with \<open>break\<close> in \<open>add_to_tree\<close>: the place of the first child that
  has the name and is a directory.\<close>

fun find_dir :: "string \<Rightarrow> TreeNode list \<Rightarrow> nat option" where
  "find_dir dir_name [] = None"
| "find_dir dir_name (c # cs) =
     (if name c = dir_name \<and> is_dir c then Some 0 else map_option Suc (find_dir dir_name cs))"

text \<open>
  \<open>add_to_tree(node, rel_path, file_info)\<close>, on the parts of \<open>rel_path\<close>. The source
  returns the node it created and \<open>build_tree\<close> ignores it; the model returns \<open>node\<close>
  as the call leaves it. A path with no parts reaches \<open>parts[0]\<close> and raises. A
  \<open>FileInfo\<close> is always true in a condition, so \<open>if file_info\<close> asks whether one was given.
\<close>

fun add_to_tree :: "TreeNode \<Rightarrow> Path \<Rightarrow> FileInfo option \<Rightarrow> error + TreeNode" where
  "add_to_tree node [] file_info = Inl IndexError"
| "add_to_tree node [p] file_info =
     (let child = (case file_info of
                     Some fi \<Rightarrow> TreeNode p [p] False (fsize fi) (fsize fi div 4) []
                   | None \<Rightarrow> TreeNode p [p] True 0 0 [])
      in Inr (set_children node (children node @ [child])))"
| "add_to_tree node (p # q # ps) file_info =
     (case find_dir p (children node) of
        Some i \<Rightarrow>
          (case add_to_tree (children node ! i) (q # ps) file_info of
             Inl err \<Rightarrow> Inl err
           | Inr child \<Rightarrow> Inr (set_children node ((children node)[i := child])))
      | None \<Rightarrow>
          (case add_to_tree (TreeNode p [p] True 0 0 []) (q # ps) file_info of
             Inl err \<Rightarrow> Inl err
           | Inr child \<Rightarrow> Inr (set_children node (children node @ [child]))))"

text \<open>The loop \<open>for file_info in files: add_to_tree(root_node, file_info.path, file_info)\<close>.\<close>

fun add_all :: "TreeNode \<Rightarrow> FileInfo list \<Rightarrow> error + TreeNode" where
  "add_all root_node [] = Inr root_node"
| "add_all root_node (file_info # files) =
     (case add_to_tree root_node (fpath file_info) (Some file_info) of
        Inl err \<Rightarrow> Inl err
      | Inr root_node' \<Rightarrow> add_all root_node' files)"

text \<open>\<open>calc_size\<close>: the pair it returns and the node as it leaves it.\<close>

fun calc_size :: "TreeNode \<Rightarrow> (int \<times> int) \<times> TreeNode" where
  "calc_size (TreeNode n p d s t cs) =
     (if \<not> d then ((s, t), TreeNode n p d s t cs)
      else (let rs = map calc_size cs;
                total_size = sum_list (map (\<lambda>r. fst (fst r)) rs);
                total_tokens = sum_list (map (\<lambda>r. snd (fst r)) rs)
            in ((total_size, total_tokens), TreeNode n p d total_size total_tokens (map snd rs))))"

text \<open>\<open>str.lower()\<close> on the first 256 characters.\<close>

definition lower_char :: "char \<Rightarrow> char" where
  "lower_char c =
     (let k = (of_char c :: nat)
      in if (65 \<le> k \<and> k \<le> 90) \<or> (192 \<le> k \<and> k \<le> 222 \<and> k \<noteq> 215) then char_of (k + 32) else c)"

definition lower :: "string \<Rightarrow> string" where
  "lower s = map lower_char s"

text \<open>\<open>xs.sort(key=sort_key)\<close>: stable, ascending in the key, which is the negated size,
  the negated token total, or the lower-cased name.\<close>

definition sort_nodes :: "string \<Rightarrow> TreeNode list \<Rightarrow> TreeNode list" where
  "sort_nodes sort_by xs =
     (if sort_by = ''size'' then sort_key (\<lambda>node. - nsize node) xs
      else if sort_by = ''tokens'' then sort_key (\<lambda>node. - tokens node) xs
      else sort_key (\<lambda>node. lower (name node)) xs)"

definition order_children :: "string \<Rightarrow> bool \<Rightarrow> TreeNode list \<Rightarrow> TreeNode list" where
  "order_children sort_by dirs_first cs =
     (if dirs_first then
        (let dirs = filter is_dir cs;
             files_list = filter (\<lambda>c. \<not> is_dir c) cs
         in sort_nodes sort_by dirs @ sort_nodes sort_by files_list)
      else sort_nodes sort_by cs)"

lemma set_order_children: "set (order_children sort_by dirs_first cs) = set cs"
  by (auto simp: order_children_def sort_nodes_def Let_def)

function sort_children :: "string \<Rightarrow> bool \<Rightarrow> TreeNode \<Rightarrow> TreeNode" where
  "sort_children sort_by dirs_first (TreeNode n p d s t cs) =
     TreeNode n p d s t
       (map (\<lambda>child. if is_dir child then sort_children sort_by dirs_first child else child)
            (order_children sort_by dirs_first cs))"
  by pat_completeness auto
termination
proof (relation "measure (\<lambda>(sort_by, dirs_first, node). size node)")
  show "wf (measure (\<lambda>(sort_by, dirs_first, node). size node))"
    by simp
next
  fix sort_by :: string and dirs_first n p d s t cs and x :: TreeNode
  assume "x \<in> set (order_children sort_by dirs_first cs)" "is_dir x"
  then have "x \<in> set cs"
    by (simp add: set_order_children)
  then have "size x < Suc (size_list size cs)"
    by (induction cs) auto
  then show "((sort_by, dirs_first, x), (sort_by, dirs_first, TreeNode n p d s t cs))
             \<in> measure (\<lambda>(sort_by, dirs_first, node). size node)"
    by simp
qed

text \<open>\<open>trim_depth\<close>, for the \<open>max_depth\<close> that \<open>build_tree\<close> was given.\<close>

fun trim_depth :: "int \<Rightarrow> TreeNode \<Rightarrow> int \<Rightarrow> TreeNode" where
  "trim_depth max_depth (TreeNode n p d s t cs) depth =
     (if depth \<ge> max_depth then TreeNode n p d s t []
      else TreeNode n p d s t
             (map (\<lambda>child. if is_dir child then trim_depth max_depth child (depth + 1) else child) cs))"

text \<open>\<open>build_tree\<close>. The dictionary \<open>file_map\<close> that the source fills first is never
  read and has no counterpart here.\<close>

definition build_tree ::
  "FileInfo list \<Rightarrow> Path \<Rightarrow> int option \<Rightarrow> string \<Rightarrow> bool \<Rightarrow> error + TreeNode" where
  "build_tree files root_dir max_depth sort_by dirs_first =
     (let root_node = TreeNode (if path_name root_dir \<noteq> [] then path_name root_dir else path_str root_dir)
                        root_dir True 0 0 []
      in (case add_all root_node files of
            Inl err \<Rightarrow> Inl err
          | Inr root_node \<Rightarrow>
              (let root_node = snd (calc_size root_node);
                   root_node = sort_children sort_by dirs_first root_node;
                   root_node = (case max_depth of
                                  None \<Rightarrow> root_node
                                | Some m \<Rightarrow> trim_depth m root_node 0)
               in Inr root_node)))"

section \<open>Rendering\<close>

text \<open>The three box-drawing strings of \<open>render_tree\<close> are outside the first 256
  characters; they stand here as their UTF-8 bytes.\<close>

definition connector_last :: string where
  "connector_last = [CHR 0xE2, CHR 0x94, CHR 0x94, CHR 0xE2, CHR 0x94, CHR 0x80,
                     CHR 0xE2, CHR 0x94, CHR 0x80, CHR '' '']"

definition connector_mid :: string where
  "connector_mid = [CHR 0xE2, CHR 0x94, CHR 0x9C, CHR 0xE2, CHR 0x94, CHR 0x80,
                    CHR 0xE2, CHR 0x94, CHR 0x80, CHR '' '']"

definition prefix_bar :: string where
  "prefix_bar = [CHR 0xE2, CHR 0x94, CHR 0x82, CHR '' '', CHR '' '', CHR '' '']"

text \<open>\<open>f"{s:>10}"\<close>.\<close>

definition rjust :: "nat \<Rightarrow> string \<Rightarrow> string" where
  "rjust w s = replicate (w - length s) CHR '' '' @ s"

fun render_tree ::
    "(int \<Rightarrow> int \<Rightarrow> string) \<Rightarrow> TreeNode \<Rightarrow> string \<Rightarrow> bool \<Rightarrow> bool \<Rightarrow> bool \<Rightarrow> string list"
  and render_children ::
    "(int \<Rightarrow> int \<Rightarrow> string) \<Rightarrow> TreeNode list \<Rightarrow> string \<Rightarrow> bool \<Rightarrow> bool \<Rightarrow> string list" where
  "render_tree f1 (TreeNode n p d s t cs) pfx is_last show_tokens show_size =
     (let connector = (if is_last then connector_last else connector_mid);
          size_part = (if show_size \<and> \<not> d then ''['' @ rjust 10 (format_size f1 s) @ ''] ''
                       else if show_size \<and> d then ''['' @ rjust 10 (format_size f1 s) @ ''] ''
                       else []);
          token_part = (if show_tokens \<and> \<not> d then '' ('' @ format_tokens f1 t @ '' tok)'' else []);
          line = pfx @ connector @ size_part @ n @ token_part;
          new_prefix = pfx @ (if is_last then ''    '' else prefix_bar)
      in line # (if cs \<noteq> [] then render_children f1 cs new_prefix show_tokens show_size else []))"
| "render_children f1 [] pfx show_tokens show_size = []"
| "render_children f1 (child # rest) pfx show_tokens show_size =
     render_tree f1 child pfx (rest = []) show_tokens show_size
     @ render_children f1 rest pfx show_tokens show_size"

text \<open>\<open>count_nodes\<close>, the inner function of \<open>generate_tree_view\<close>.\<close>

fun count_nodes :: "TreeNode \<Rightarrow> int \<times> int" where
  "count_nodes (TreeNode n p d s t cs) =
     (if \<not> d then (0, 1)
      else (let rs = map count_nodes cs
            in (1 + sum_list (map fst rs), sum_list (map snd rs))))"

definition generate_tree_view ::
  "(int \<Rightarrow> int \<Rightarrow> string) \<Rightarrow> FileInfo list \<Rightarrow> Path \<Rightarrow> int option \<Rightarrow> bool \<Rightarrow> bool \<Rightarrow> string \<Rightarrow> bool
   \<Rightarrow> error + string" where
  "generate_tree_view f1 files root_dir max_depth show_tokens show_size sort_by dirs_first =
     (case build_tree files root_dir max_depth sort_by dirs_first of
        Inl err \<Rightarrow> Inl err
      | Inr tree \<Rightarrow>
          (let lines = render_tree f1 tree [] True show_tokens show_size;
               (num_dirs, num_files) = count_nodes tree;
               num_dirs = max 0 (num_dirs - 1);
               lines = lines @ [[], str_int num_dirs @ '' directories, '' @ str_int num_files @ '' files'']
           in Inr (join [CHR 0x0A] lines)))"

section \<open>What the statements about trees speak of\<close>

text \<open>The sizes and token counts of the files below a node, a file counting as itself.\<close>

fun file_sizes :: "TreeNode \<Rightarrow> int" where
  "file_sizes (TreeNode n p d s t cs) = (if d then sum_list (map file_sizes cs) else s)"

fun file_tokens :: "TreeNode \<Rightarrow> int" where
  "file_tokens (TreeNode n p d s t cs) = (if d then sum_list (map file_tokens cs) else t)"

text \<open>The files below a node, each with the names that lead to it, its size and its
  token count: \<open>nleaves\<close> starts the names at the node, \<open>leaves\<close> at its children.\<close>

fun nleaves :: "TreeNode \<Rightarrow> (Path \<times> int \<times> int) list" where
  "nleaves (TreeNode n p d s t cs) =
     (if d then map (\<lambda>(q, z). (n # q, z)) (concat (map nleaves cs)) else [([n], s, t)])"

definition leaves :: "TreeNode \<Rightarrow> (Path \<times> int \<times> int) list" where
  "leaves node = concat (map nleaves (children node))"

text \<open>Every directory carries the sums over the files below it.\<close>

fun aggregates_ok :: "TreeNode \<Rightarrow> bool" where
  "aggregates_ok (TreeNode n p d s t cs) =
     (d \<longrightarrow> s = sum_list (map file_sizes cs) \<and> t = sum_list (map file_tokens cs)
          \<and> (\<forall>c \<in> set cs. aggregates_ok c))"

text \<open>The first tree is the second one with the children of some nodes cleared; every
  node that is left has the name, kind, size and tokens of the node at its place.\<close>

fun pruned_from :: "TreeNode \<Rightarrow> TreeNode \<Rightarrow> bool" where
  "pruned_from (TreeNode n' p' d' s' t' cs') (TreeNode n p d s t cs) =
     (n' = n \<and> p' = p \<and> d' = d \<and> s' = s \<and> t' = t
      \<and> (cs' = [] \<or> list_all2 pruned_from cs' cs))"

text \<open>No two children of a node share a name, at every level.\<close>

fun siblings_distinct :: "TreeNode \<Rightarrow> bool" where
  "siblings_distinct (TreeNode n p d s t cs) =
     (distinct (map name cs) \<and> (\<forall>c \<in> set cs. siblings_distinct c))"

text \<open>
  The files of a tree as paths of names: \<open>npaths\<close> from a node, its own name first,
  \<open>below\<close> from its children. \<open>tree_inv\<close> is what inserting files keeps: files have
  no children, the children of a directory have different names, and every directory
  below the top holds a file.
\<close>

fun npaths :: "TreeNode \<Rightarrow> Path list" where
  "npaths (TreeNode n p d s t cs) = (if d then map ((#) n) (concat (map npaths cs)) else [[n]])"

definition below :: "TreeNode \<Rightarrow> Path list" where
  "below node = concat (map npaths (children node))"

fun tree_inv :: "TreeNode \<Rightarrow> bool" where
  "tree_inv (TreeNode n p d s t cs) =
     (if d then distinct (map name cs) \<and> (\<forall>c \<in> set cs. tree_inv c \<and> npaths c \<noteq> [])
      else cs = [])"

text \<open>The two lists of files of the statements on trees.\<close>

definition file_of :: "Path \<Rightarrow> int \<Rightarrow> FileInfo" where
  "file_of p s = \<lparr>fpath = p, fsize = s, mtime = 0\<rparr>"

definition sample_files :: "FileInfo list" where
  "sample_files = [file_of [''a'', ''b.txt''] 10, file_of [''a'', ''c'', ''d''] 7, file_of [''B''] 3]"

section \<open>Two rules on concrete paths\<close>

text \<open>
  C6. The gitignore rule \<open>build/\<close> matches the relative paths \<open>build/x.txt\<close> and
  \<open>sub/build/x.txt\<close>, so a rule set that holds it excludes both, and it does not match
  \<open>buildscript.sh\<close>, which the rule set lets through.
\<close>

theorem gitignore_build_slash:
  "matches_gitignore_pattern ''build/x.txt'' ''build/''
   \<and> matches_gitignore_pattern ''sub/build/x.txt'' ''build/''
   \<and> \<not> matches_gitignore_pattern ''buildscript.sh'' ''build/''
   \<and> should_exclude_by_gitignore ''build/x.txt'' [''build/'']
   \<and> should_exclude_by_gitignore ''sub/build/x.txt'' [''build/'']
   \<and> \<not> should_exclude_by_gitignore ''buildscript.sh'' [''build/'']"
  by code_simp

text \<open>
  C7. The exclude pattern \<open>**/*.log\<close> matches the relative paths \<open>a.log\<close> and
  \<open>sub/dir/b.log\<close>, which therefore fail the selection stage under the include
  pattern \<open>*\<close>, and does not match \<open>a.log.txt\<close>, which passes it.
\<close>

theorem exclude_star_star_log:
  "matches_exclude_pattern ''a.log'' ''**/*.log''
   \<and> matches_exclude_pattern ''sub/dir/b.log'' ''**/*.log''
   \<and> \<not> matches_exclude_pattern ''a.log.txt'' ''**/*.log''
   \<and> \<not> passes_patterns [''*''] [''**/*.log''] False [] ''a.log''
   \<and> \<not> passes_patterns [''*''] [''**/*.log''] False [] ''sub/dir/b.log''
   \<and> passes_patterns [''*''] [''**/*.log''] False [] ''a.log.txt''"
  by code_simp

section \<open>The selection stage\<close>

lemma any_py_iff: "any_py f xs \<longleftrightarrow> (\<exists>x \<in> set xs. f x)"
  by (induction xs) auto

lemma passes_patterns_iff:
  "passes_patterns include exclude use_gitignore gitignore_patterns P \<longleftrightarrow>
     (\<exists>pattern \<in> set include. fnmatch P pattern)
     \<and> \<not> (\<exists>pattern \<in> set exclude. matches_exclude_pattern P pattern)
     \<and> (use_gitignore \<longrightarrow>
          \<not> (\<exists>pattern \<in> set gitignore_patterns. matches_gitignore_pattern P pattern))"
  by (auto simp: passes_patterns_def should_exclude_by_gitignore_def any_py_iff)

lemma glob_match_star: "glob_match [Star] s"
  by (induction s) auto

lemma fnmatch_star: "fnmatch P ''*''"
  by (simp add: fnmatch_def glob_match_star)

lemma expand_star: "expand d ''*'' = ''*''"
  by (simp add: expand_def lstrip_def rstrip_def bslash_def)

section \<open>The rule file\<close>

lemma load_lines_no_bang: "p \<in> set (load_lines ls) \<Longrightarrow> \<not> startswith p ''!''"
  by (induction ls) (auto simp: Let_def split: if_splits)

lemma load_lines_filter:
  "load_lines (filter (\<lambda>l. \<not> startswith (strip l) ''!'') ls) = load_lines ls"
  by (induction ls) (auto simp: Let_def)

text \<open>
  C8. Loading a rule file drops every line that starts with \<open>!\<close> once its surrounding
  blanks are stripped: no loaded rule starts with \<open>!\<close>, the loaded rules are those of
  the file with these lines taken out, and so is the result of \<open>collect_files\<close>. A
  negation line neither excludes a path nor brings one back.
\<close>

theorem negation_lines_dropped:
  "(\<exists>ps. load_gitignore_patterns (Lines ls) = Inr ps
         \<and> (\<forall>p \<in> set ps. \<not> startswith p ''!'')
         \<and> load_gitignore_patterns (Lines (filter (\<lambda>l. \<not> startswith (strip l) ''!'') ls)) = Inr ps)
   \<and> collect_files (r\<lparr>gitignore := Lines ls\<rparr>) inc exc ms bs ug
     = collect_files (r\<lparr>gitignore := Lines (filter (\<lambda>l. \<not> startswith (strip l) ''!'') ls)\<rparr>)
         inc exc ms bs ug"
  by (auto simp: load_gitignore_patterns_def load_lines_filter collect_files_def
           dest: load_lines_no_bang)

theorem negation_lines_dropped_witness:
  "load_gitignore_patterns (Lines [''# logs'', ''!keep.log'', ''*.log  '', ''build/''])
     = Inr [''*.log'', ''build/'']
   \<and> \<not> startswith ''*.log'' ''!'' \<and> \<not> startswith ''build/'' ''!''
   \<and> load_gitignore_patterns (Lines [''# logs'', ''*.log  '', ''build/''])
     = Inr [''*.log'', ''build/'']"
proof -
  let ?ls = "[''# logs'', ''!keep.log'', ''*.log  '', ''build/'']"
  have f: "filter (\<lambda>l. \<not> startswith (strip l) ''!'') ?ls = [''# logs'', ''*.log  '', ''build/'']"
    by code_simp
  have l: "load_gitignore_patterns (Lines ?ls) = Inr [''*.log'', ''build/'']"
    by code_simp
  from negation_lines_dropped [of ?ls sample_root None None 0 True True]
  obtain ps where ps: "load_gitignore_patterns (Lines ?ls) = Inr ps"
      "\<forall>p \<in> set ps. \<not> startswith p ''!''"
      "load_gitignore_patterns (Lines (filter (\<lambda>l. \<not> startswith (strip l) ''!'') ?ls)) = Inr ps"
    by blast
  from ps(1) l have e: "ps = [''*.log'', ''build/'']"
    by simp
  from ps(2) ps(3) show ?thesis
    unfolding e f using l by simp
qed




section \<open>The version-control directory\<close>

lemma startswith_hd: "startswith x (c # p) \<Longrightarrow> x \<noteq> [] \<and> hd x = c"
  by (cases x) (auto simp: startswith_def)

lemma lstrip_no_dot: "\<not> startswith (lstrip ''./'' pat) ''.git''"
proof
  assume a: "startswith (lstrip ''./'' pat) ''.git''"
  let ?r = "dropWhile (\<lambda>c. c \<in> set ''./'') pat"
  from startswith_hd [OF a] have ne: "?r \<noteq> []" and h: "hd ?r = CHR ''.''"
    by (simp_all add: lstrip_def)
  from hd_dropWhile [OF ne] h show False
    by simp
qed

text \<open>The test that decides whether \<open>.git\<close> was asked for never succeeds: what
  \<open>lstrip("./")\<close> returns does not start with a dot.\<close>

lemma git_included_never: "\<not> git_included include"
  by (simp add: git_included_def any_py_iff lstrip_no_dot)

text \<open>With the two forced entries always in the exclude list, no file that has \<open>.git\<close>
  among the parts of its path is ever returned.\<close>

lemma str_replace_char:
  "str_replace s [a] [b] = map (\<lambda>c. if c = a then b else c) s"
  by (induction s "[a]" "[b]" rule: str_replace.induct) auto

lemma split_nonempty: "split sep s \<noteq> []"
  by (induction s) (auto split: list.splits)

lemma split_append: "split sep (a @ sep # b) = split sep a @ split sep b"
proof (induction a)
  case Nil
  then show ?case by simp
next
  case (Cons c a)
  then show ?case
    using split_nonempty [of sep a] by (auto split: list.splits)
qed

lemma split_no_sep: "sep \<notin> set s \<Longrightarrow> split sep s = [s]"
  by (induction s) auto

lemma split_join_mem:
  assumes "w \<in> set ps" and "CHR ''/'' \<notin> set (map f w)" and f: "f CHR ''/'' = CHR ''/''"
  shows "map f w \<in> set (split CHR ''/'' (map f (join ''/'' ps)))"
  using assms(1)
proof (induction "''/''" ps rule: join.induct)
  case 1
  then show ?case by simp
next
  case (2 v)
  with assms(2) show ?case
    by (simp add: split_no_sep)
next
  case (3 u v ws)
  have "split CHR ''/'' (map f (join ''/'' (u # v # ws)))
        = split CHR ''/'' (map f u) @ split CHR ''/'' (map f (join ''/'' (v # ws)))"
    using split_append [of "CHR ''/''" "map f u" "map f (join ''/'' (v # ws))"] by (simp add: f)
  moreover have "map f w \<in> set (split CHR ''/'' (map f u))" if "w = u"
    using that assms(2) by (simp add: split_no_sep)
  ultimately show ?case
    using 3 by auto
qed

lemma dot_git_facts:
  "str_replace ''.git/**'' [bslash] ''/'' = ''.git/**''"
  "contains ''.git/**'' ''**''"
  "str_replace (str_replace ''.git/**'' ''/**'' []) ''**/'' [] = ''.git''"
  "\<not> contains ''.git'' ''/''"
  "fnmatch ''.git'' ''.git''"
  by code_simp+

lemma matches_exclude_dot_git:
  "matches_exclude_pattern rel_path ''.git/**''
   = any_py (\<lambda>part. fnmatch part ''.git'') (split CHR ''/'' (str_replace rel_path [bslash] ''/''))"
  by (simp only: matches_exclude_pattern_def dot_git_facts Let_def if_True if_False not_False_eq_True)

lemma dot_git_part_excluded:
  assumes "''.git'' \<in> set parts"
  shows "matches_exclude_pattern (str_replace (path_str parts) [bslash] ''/'') ''.git/**''"
proof -
  let ?f = "\<lambda>c. if c = bslash then CHR ''/'' else c"
  have same: "map ?f ''.git'' = ''.git''"
    by (simp add: bslash_def)
  have ns: "CHR ''/'' \<notin> set (map ?f ''.git'')"
    unfolding same by simp
  have mem: "''.git'' \<in> set (split CHR ''/'' (map ?f (join ''/'' ps)))" if "''.git'' \<in> set ps" for ps
    using split_join_mem [OF that ns] same by simp
  have "''.git'' \<in> set (split CHR ''/'' (map ?f (path_str parts)))"
  proof (cases "hd parts = ''/''")
    case True
    with assms have "''.git'' \<in> set (tl parts)"
      by (cases parts) auto
    from mem [OF this] True assms show ?thesis
      by (auto simp: path_str_def)
  next
    case False
    with mem [OF assms] assms show ?thesis
      by (auto simp: path_str_def)
  qed
  moreover have "map ?f (map ?f s) = map ?f s" for s
    by simp
  ultimately have "''.git'' \<in> set (split CHR ''/''
      (str_replace (str_replace (path_str parts) [bslash] ''/'') [bslash] ''/''))"
    by (simp only: str_replace_char)
  then show ?thesis
    unfolding matches_exclude_dot_git any_py_iff using dot_git_facts(5) by blast
qed

lemma forced_exclude_always: "forced_exclude include exclude = exclude @ [''.git/**'', ''.git'']"
  by (simp add: forced_exclude_def git_included_never)

lemma visit_dot_git:
  assumes "''.git'' \<in> set (rel e)"
  shows "visit include (forced_exclude include exclude) max_size binary_strict use_gitignore
           gitignore_patterns e = None"
proof -
  have "\<not> passes_patterns include (forced_exclude include exclude) use_gitignore gitignore_patterns
          (str_replace (path_str (rel e)) [bslash] ''/'')"
    using dot_git_part_excluded [OF assms]
    by (auto simp: passes_patterns_def any_py_iff forced_exclude_always)
  then show ?thesis
    by (simp add: visit_def Let_def)
qed

lemma visit_path: "visit i x m b u g e = Some f \<Longrightarrow> fpath f = rel e"
  by (auto simp: visit_def Let_def split: if_splits option.splits)

lemma map_filter_mem: "y \<in> set (List.map_filter g xs) \<longleftrightarrow> (\<exists>x \<in> set xs. g x = Some y)"
  by (induction xs) (auto simp: map_filter_simps split: option.splits)

lemma dot_git_never_collected:
  assumes "collect_files root_path include exclude max_size binary_strict use_gitignore = Inr files"
    and "f \<in> set files"
  shows "''.git'' \<notin> set (fpath f)"
proof
  assume g: "''.git'' \<in> set (fpath f)"
  let ?inc = "map (expand (dir_at root_path)) (default_include include)"
  let ?exc = "map (expand (dir_at root_path)) (default_exclude exclude)"
  from assms(1) obtain gp where
    fs: "files = List.map_filter (visit ?inc (forced_exclude ?inc ?exc) max_size binary_strict use_gitignore gp)
               (entries root_path)"
    by (auto simp: collect_files_def Let_def split: sum.splits)
  from assms(2) have "\<exists>e \<in> set (entries root_path).
      visit ?inc (forced_exclude ?inc ?exc) max_size binary_strict use_gitignore gp e = Some f"
    unfolding fs map_filter_mem .
  then obtain e where
    v: "visit ?inc (forced_exclude ?inc ?exc) max_size binary_strict use_gitignore gp e = Some f"
    by blast
  from visit_path [OF v] g have "''.git'' \<in> set (rel e)"
    by simp
  from visit_dot_git [OF this] v show False
    by simp
qed

text \<open>
  C3. \<open>collect_files\<close> is to return no file under \<open>.git\<close> unless an include pattern
  names \<open>.git\<close>, and then to let such files into the result. The code returns none in
  either case: on a root that holds \<open>.git/config\<close>, the include patterns \<open>.git/**\<close>
  and \<open>.git/config\<close>, alone or next to \<open>*\<close>, return no file under \<open>.git\<close>.
\<close>

theorem git_never_collected:
  "collect_files sample_root (Some [''.git/**'']) None 1048576 True False = Inr []
   \<and> collect_files sample_root (Some [''.git/config'']) None 1048576 True False = Inr []
   \<and> collect_files sample_root (Some [''*'', ''.git/**'', ''.git/config'']) None 1048576 True False
     = Inr [\<lparr>fpath = [''src'', ''a.py''], fsize = 2, mtime = 0\<rparr>,
            \<lparr>fpath = [''x.log''], fsize = 2, mtime = 0\<rparr>,
            \<lparr>fpath = [''keep.log''], fsize = 2, mtime = 0\<rparr>]"
  unfolding sample_root_def text_file_def by code_simp

section \<open>The selection stage inside \<open>collect_files\<close>\<close>

text \<open>An entry that the checks after the patterns keep is returned exactly when the
  pattern checks pass, on the lists that \<open>collect_files\<close> has built by then.\<close>

lemma visit_kept:
  assumes "is_file e" and "\<not> is_binary_path e bs" and "stat e = Some (sz, mt)"
    and "readable e" and "sz \<le> ms"
  shows "visit I X ms bs ug rules e
         = (if passes_patterns I X ug rules (str_replace (path_str (rel e)) [bslash] ''/'')
            then Some \<lparr>fpath = rel e, fsize = sz, mtime = mt\<rparr> else None)"
  using assms by (simp add: visit_def Let_def)

lemma collect_files_member:
  assumes res: "collect_files r inc exc ms bs ug = Inr files"
    and e: "e \<in> set (entries r)"
    and k: "is_file e" "\<not> is_binary_path e bs" "stat e = Some (sz, mt)" "readable e" "sz \<le> ms"
  shows "\<exists>rules. (if ug then load_gitignore_patterns (gitignore r) else Inr []) = Inr rules
           \<and> (\<lparr>fpath = rel e, fsize = sz, mtime = mt\<rparr> \<in> set files \<longleftrightarrow>
                passes_patterns (map (expand (dir_at r)) (default_include inc))
                  (forced_exclude (map (expand (dir_at r)) (default_include inc))
                     (map (expand (dir_at r)) (default_exclude exc)))
                  ug rules (str_replace (path_str (rel e)) [bslash] ''/''))"
proof -
  let ?I = "map (expand (dir_at r)) (default_include inc)"
  let ?X = "forced_exclude ?I (map (expand (dir_at r)) (default_exclude exc))"
  let ?P = "str_replace (path_str (rel e)) [bslash] ''/''"
  let ?f = "\<lparr>fpath = rel e, fsize = sz, mtime = mt\<rparr>"
  from res obtain rules where
    rules: "(if ug then load_gitignore_patterns (gitignore r) else Inr []) = Inr rules"
    and files: "files = List.map_filter (visit ?I ?X ms bs ug rules) (entries r)"
    by (auto simp: collect_files_def Let_def split: sum.splits)
  have "?f \<in> set files \<longleftrightarrow> passes_patterns ?I ?X ug rules ?P"
  proof
    assume "?f \<in> set files"
    then obtain e' where e': "e' \<in> set (entries r)" "visit ?I ?X ms bs ug rules e' = Some ?f"
      unfolding files map_filter_mem by blast
    from visit_path [OF e'(2)] have same: "rel e' = rel e"
      by simp
    from e'(2) have "passes_patterns ?I ?X ug rules (str_replace (path_str (rel e')) [bslash] ''/'')"
      by (auto simp: visit_def Let_def split: if_splits)
    then show "passes_patterns ?I ?X ug rules ?P"
      unfolding same .
  next
    assume "passes_patterns ?I ?X ug rules ?P"
    then have "visit ?I ?X ms bs ug rules e = Some ?f"
      by (simp add: visit_kept [OF k])
    with e show "?f \<in> set files"
      unfolding files map_filter_mem by blast
  qed
  with rules show ?thesis
    by blast
qed

text \<open>On a pattern from which \<open>lstrip("./")\<close> takes nothing but a leading \<open>./\<close>,
  \<open>_expand\<close> is the normalisation its comment names.\<close>

lemma plain_expand:
  assumes "plain_pattern p"
  shows "expand d p
         = (let q = str_replace p [bslash] ''/'';
                pat = rstrip ''/'' (if startswith q ''./'' then drop 2 q else q)
            in if pat = ''*'' \<or> pat = ''**'' then pat
               else if d pat then pat @ ''/**''
               else pat)"
  using assms unfolding plain_pattern_def expand_def Let_def by simp

text \<open>
  C2, as the code has it. The patterns the caller gives do not decide by themselves.
  Under the include pattern \<open>*\<close>, with no exclude pattern and gitignore support off,
  \<open>.git/config\<close> is not returned: \<open>.git/**\<close> and \<open>.git\<close> are appended to the exclude
  list. The include pattern \<open>src\<close> does not match \<open>src/a.py\<close>, which is returned:
  the name of a directory becomes \<open>src/**\<close>. And a leading dot does not survive
  \<open>_expand\<close>: \<open>.github/*\<close> becomes \<open>github/*\<close> and selects nothing, the exclude
  pattern \<open>.env\<close> becomes \<open>env\<close> and leaves \<open>.env\<close> in the result.
\<close>

theorem caller_patterns_do_not_decide:
  "passes_patterns [''*''] [] False [] ''.git/config''
   \<and> text_file [''.git'', ''config''] \<in> set (entries sample_root)
   \<and> visit [''*''] [] 1048576 True False [] (text_file [''.git'', ''config''])
     = Some \<lparr>fpath = [''.git'', ''config''], fsize = 2, mtime = 0\<rparr>
   \<and> collect_files sample_root (Some [''*'']) (Some []) 1048576 True False
     = Inr [\<lparr>fpath = [''src'', ''a.py''], fsize = 2, mtime = 0\<rparr>,
            \<lparr>fpath = [''x.log''], fsize = 2, mtime = 0\<rparr>,
            \<lparr>fpath = [''keep.log''], fsize = 2, mtime = 0\<rparr>]
   \<and> \<not> passes_patterns [''src''] [] False [] ''src/a.py''
   \<and> collect_files sample_root (Some [''src'']) (Some []) 1048576 True False
     = Inr [\<lparr>fpath = [''src'', ''a.py''], fsize = 2, mtime = 0\<rparr>]
   \<and> expand (dir_at dot_root) ''.github/*'' = ''github/*''
   \<and> passes_patterns [''.github/*''] [] False [] ''.github/ci.yml''
   \<and> collect_files dot_root (Some [''.github/*'']) (Some []) 1048576 True False = Inr []
   \<and> expand (dir_at dot_root) ''.env'' = ''env''
   \<and> \<not> passes_patterns [''*''] [''.env''] False [] ''.env''
   \<and> collect_files dot_root (Some [''*'']) (Some [''.env'']) 1048576 True False
     = Inr [\<lparr>fpath = [''.github'', ''ci.yml''], fsize = 2, mtime = 0\<rparr>,
            \<lparr>fpath = [''.env''], fsize = 2, mtime = 0\<rparr>,
            \<lparr>fpath = [''a.py''], fsize = 2, mtime = 0\<rparr>]"
  unfolding sample_root_def dot_root_def text_file_def by code_simp

text \<open>
  C2, amended. Take include and exclude patterns from which \<open>lstrip("./")\<close> removes at
  most a leading \<open>./\<close>, and an entry of the walk that the later checks keep (a regular
  file, not binary, with a size within the limit, readable), with relative path \<open>P\<close>.
  \<open>collect_files\<close> returns it exactly when some include pattern, as \<open>_expand\<close> leaves
  it, matches \<open>P\<close>; no exclude pattern, as \<open>_expand\<close> leaves it, matches \<open>P\<close>, and
  neither does \<open>.git/**\<close> or \<open>.git\<close>; and, with gitignore support on, no rule loaded
  from the rule file matches \<open>P\<close>. What \<open>_expand\<close> leaves of such a pattern is the
  pattern with slashes for backslashes, without one leading \<open>./\<close> and without trailing
  slashes, followed by \<open>/**\<close> when that is a directory under the root and neither
  \<open>*\<close> nor \<open>**\<close>.
\<close>

theorem selection_in_collect_files:
  assumes plain: "\<forall>p \<in> set (default_include inc) \<union> set (default_exclude exc). plain_pattern p"
    and res: "collect_files r inc exc ms bs ug = Inr files"
    and e: "e \<in> set (entries r)"
    and k: "is_file e" "\<not> is_binary_path e bs" "stat e = Some (sz, mt)" "readable e" "sz \<le> ms"
    and P: "P = str_replace (path_str (rel e)) [bslash] ''/''"
  shows "(\<lparr>fpath = rel e, fsize = sz, mtime = mt\<rparr> \<in> set files \<longleftrightarrow>
           (\<exists>p \<in> set (default_include inc). fnmatch P (expand (dir_at r) p))
           \<and> \<not> (\<exists>p \<in> set (default_exclude exc). matches_exclude_pattern P (expand (dir_at r) p))
           \<and> \<not> matches_exclude_pattern P ''.git/**''
           \<and> \<not> matches_exclude_pattern P ''.git''
           \<and> (ug \<longrightarrow> (\<exists>rules. load_gitignore_patterns (gitignore r) = Inr rules
                    \<and> \<not> (\<exists>rule \<in> set rules. matches_gitignore_pattern P rule))))
         \<and> (\<forall>p \<in> set (default_include inc) \<union> set (default_exclude exc).
               expand (dir_at r) p
               = (let q = str_replace p [bslash] ''/'';
                      pat = rstrip ''/'' (if startswith q ''./'' then drop 2 q else q)
                  in if pat = ''*'' \<or> pat = ''**'' then pat
                     else if dir_at r pat then pat @ ''/**''
                     else pat))"
proof -
  from collect_files_member [OF res e k] obtain rules where
    rules: "(if ug then load_gitignore_patterns (gitignore r) else Inr []) = Inr rules"
    and mem: "\<lparr>fpath = rel e, fsize = sz, mtime = mt\<rparr> \<in> set files \<longleftrightarrow>
                passes_patterns (map (expand (dir_at r)) (default_include inc))
                  (forced_exclude (map (expand (dir_at r)) (default_include inc))
                     (map (expand (dir_at r)) (default_exclude exc)))
                  ug rules P"
    unfolding P by blast
  have sel: "\<lparr>fpath = rel e, fsize = sz, mtime = mt\<rparr> \<in> set files \<longleftrightarrow>
           (\<exists>p \<in> set (default_include inc). fnmatch P (expand (dir_at r) p))
           \<and> \<not> (\<exists>p \<in> set (default_exclude exc). matches_exclude_pattern P (expand (dir_at r) p))
           \<and> \<not> matches_exclude_pattern P ''.git/**''
           \<and> \<not> matches_exclude_pattern P ''.git''
           \<and> (ug \<longrightarrow> (\<exists>rules. load_gitignore_patterns (gitignore r) = Inr rules
                    \<and> \<not> (\<exists>rule \<in> set rules. matches_gitignore_pattern P rule)))"
  proof (cases ug)
    case True
    with rules have "load_gitignore_patterns (gitignore r) = Inr rules"
      by simp
    with True show ?thesis
      unfolding mem passes_patterns_iff forced_exclude_always by auto
  next
    case False
    then show ?thesis
      unfolding mem passes_patterns_iff forced_exclude_always by auto
  qed
  from plain have "\<forall>p \<in> set (default_include inc) \<union> set (default_exclude exc).
               expand (dir_at r) p
               = (let q = str_replace p [bslash] ''/'';
                      pat = rstrip ''/'' (if startswith q ''./'' then drop 2 q else q)
                  in if pat = ''*'' \<or> pat = ''**'' then pat
                     else if dir_at r pat then pat @ ''/**''
                     else pat)"
    using plain_expand by blast
  with sel show ?thesis
    by (rule conjI)
qed

theorem selection_in_collect_files_witness:
  "\<lparr>fpath = [''src'', ''a.py''], fsize = 2, mtime = 0\<rparr>
     \<in> set [\<lparr>fpath = [''src'', ''a.py''], fsize = 2, mtime = 0\<rparr>]
   \<and> (\<exists>p \<in> set [''./src'', ''*.md'']. fnmatch ''src/a.py'' (expand (dir_at sample_root) p))
   \<and> \<not> (\<exists>p \<in> set [''tests/'']. matches_exclude_pattern ''src/a.py'' (expand (dir_at sample_root) p))
   \<and> \<not> matches_exclude_pattern ''src/a.py'' ''.git/**''
   \<and> (\<exists>rules. load_gitignore_patterns (gitignore sample_root) = Inr rules
          \<and> \<not> (\<exists>rule \<in> set rules. matches_gitignore_pattern ''src/a.py'' rule))
   \<and> expand (dir_at sample_root) ''./src'' = ''src/**''
   \<and> expand (dir_at sample_root) ''tests/'' = ''tests''"
proof -
  let ?f = "\<lparr>fpath = [''src'', ''a.py''], fsize = 2, mtime = 0\<rparr>"
  have plain: "\<forall>p \<in> set (default_include (Some [''./src'', ''*.md''])) \<union> set (default_exclude (Some [''tests/''])).
                 plain_pattern p"
    by code_simp
  have res: "collect_files sample_root (Some [''./src'', ''*.md'']) (Some [''tests/'']) 1048576 True True
             = Inr [?f]"
    unfolding sample_root_def text_file_def by code_simp
  have e: "text_file [''src'', ''a.py''] \<in> set (entries sample_root)"
    by (simp add: sample_root_def)
  have k: "is_file (text_file [''src'', ''a.py''])"
    "\<not> is_binary_path (text_file [''src'', ''a.py'']) True"
    "stat (text_file [''src'', ''a.py'']) = Some (2, 0)"
    "readable (text_file [''src'', ''a.py''])" "(2 :: int) \<le> 1048576"
    unfolding text_file_def by code_simp+
  have r: "rel (text_file [''src'', ''a.py'']) = [''src'', ''a.py'']"
    by (simp add: text_file_def)
  have P: "''src/a.py'' = str_replace (path_str (rel (text_file [''src'', ''a.py'']))) [bslash] ''/''"
    unfolding text_file_def by code_simp
  have m: "?f \<in> set [?f]"
    by simp
  have x: "expand (dir_at sample_root) ''./src'' = ''src/**''"
    "expand (dir_at sample_root) ''tests/'' = ''tests''"
    unfolding sample_root_def by code_simp+
  note t = selection_in_collect_files [OF plain res e k P]
  from t [THEN conjunct1] m
  have "(\<exists>p \<in> set [''./src'', ''*.md'']. fnmatch ''src/a.py'' (expand (dir_at sample_root) p))
   \<and> \<not> (\<exists>p \<in> set [''tests/'']. matches_exclude_pattern ''src/a.py'' (expand (dir_at sample_root) p))
   \<and> \<not> matches_exclude_pattern ''src/a.py'' ''.git/**''
   \<and> (\<exists>rules. load_gitignore_patterns (gitignore sample_root) = Inr rules
          \<and> \<not> (\<exists>rule \<in> set rules. matches_gitignore_pattern ''src/a.py'' rule))"
    unfolding r by (simp add: default_include_def default_exclude_def)
  with m x show ?thesis
    by blast
qed

text \<open>
  C10. Called with no include patterns, or with an empty sequence of them, \<open>collect_files\<close>
  works with the single include pattern \<open>*\<close> and returns what it returns for that
  pattern; every candidate path passes the include check, and whether an entry that the
  later checks keep is returned is decided by the exclude patterns and the gitignore
  rules alone.
\<close>

theorem empty_include_is_star:
  assumes "inc = None \<or> inc = Some []"
  shows "map (expand d) (default_include inc) = [''*'']
         \<and> any_py (\<lambda>pattern. fnmatch P pattern) (map (expand d) (default_include inc))
         \<and> passes_patterns (map (expand d) (default_include inc)) exclude use_gitignore
              gitignore_patterns P
            = (\<not> any_py (\<lambda>pattern. matches_exclude_pattern P pattern) exclude
               \<and> \<not> (use_gitignore \<and> should_exclude_by_gitignore P gitignore_patterns))
         \<and> collect_files r inc exc ms bs ug = collect_files r (Some [''*'']) exc ms bs ug
         \<and> (\<forall>files e sz mt.
               collect_files r inc exc ms bs ug = Inr files \<and> e \<in> set (entries r)
               \<and> is_file e \<and> \<not> is_binary_path e bs \<and> stat e = Some (sz, mt)
               \<and> readable e \<and> sz \<le> ms \<longrightarrow>
               (\<lparr>fpath = rel e, fsize = sz, mtime = mt\<rparr> \<in> set files \<longleftrightarrow>
                  \<not> (\<exists>p \<in> set (default_exclude exc).
                        matches_exclude_pattern (str_replace (path_str (rel e)) [bslash] ''/'')
                          (expand (dir_at r) p))
                  \<and> \<not> matches_exclude_pattern (str_replace (path_str (rel e)) [bslash] ''/'') ''.git/**''
                  \<and> \<not> matches_exclude_pattern (str_replace (path_str (rel e)) [bslash] ''/'') ''.git''
                  \<and> (ug \<longrightarrow> (\<exists>rules. load_gitignore_patterns (gitignore r) = Inr rules
                           \<and> \<not> should_exclude_by_gitignore
                                 (str_replace (path_str (rel e)) [bslash] ''/'') rules))))"
proof -
  have star: "map (expand d) (default_include inc) = [''*'']" for d
    using assms by (auto simp: default_include_def expand_star)
  have a: "any_py (\<lambda>pattern. fnmatch P pattern) (map (expand d) (default_include inc))"
    unfolding star by (simp add: fnmatch_star)
  have b: "passes_patterns (map (expand d) (default_include inc)) exclude use_gitignore
              gitignore_patterns P
            = (\<not> any_py (\<lambda>pattern. matches_exclude_pattern P pattern) exclude
               \<and> \<not> (use_gitignore \<and> should_exclude_by_gitignore P gitignore_patterns))"
    unfolding star by (simp add: passes_patterns_def fnmatch_star)
  have "default_include inc = default_include (Some [''*''])"
    using assms by (auto simp: default_include_def)
  then have c: "collect_files r inc exc ms bs ug = collect_files r (Some [''*'']) exc ms bs ug"
    unfolding collect_files_def by (rule arg_cong)
  have m: "\<lparr>fpath = rel e, fsize = sz, mtime = mt\<rparr> \<in> set files \<longleftrightarrow>
             \<not> (\<exists>p \<in> set (default_exclude exc).
                   matches_exclude_pattern (str_replace (path_str (rel e)) [bslash] ''/'')
                     (expand (dir_at r) p))
             \<and> \<not> matches_exclude_pattern (str_replace (path_str (rel e)) [bslash] ''/'') ''.git/**''
             \<and> \<not> matches_exclude_pattern (str_replace (path_str (rel e)) [bslash] ''/'') ''.git''
             \<and> (ug \<longrightarrow> (\<exists>rules. load_gitignore_patterns (gitignore r) = Inr rules
                      \<and> \<not> should_exclude_by_gitignore
                            (str_replace (path_str (rel e)) [bslash] ''/'') rules))"
    if res: "collect_files r inc exc ms bs ug = Inr files" and e: "e \<in> set (entries r)"
      and k: "is_file e" "\<not> is_binary_path e bs" "stat e = Some (sz, mt)" "readable e" "sz \<le> ms"
    for files e sz mt
  proof -
    let ?P = "str_replace (path_str (rel e)) [bslash] ''/''"
    from collect_files_member [OF res e k] obtain rules where
      rules: "(if ug then load_gitignore_patterns (gitignore r) else Inr []) = Inr rules"
      and mem: "\<lparr>fpath = rel e, fsize = sz, mtime = mt\<rparr> \<in> set files \<longleftrightarrow>
                  passes_patterns (map (expand (dir_at r)) (default_include inc))
                    (forced_exclude (map (expand (dir_at r)) (default_include inc))
                       (map (expand (dir_at r)) (default_exclude exc)))
                    ug rules ?P"
      by blast
    show ?thesis
    proof (cases ug)
      case True
      with rules have "load_gitignore_patterns (gitignore r) = Inr rules"
        by simp
      with True show ?thesis
        unfolding mem star passes_patterns_def forced_exclude_always any_py_iff
        by (auto simp: fnmatch_star)
    next
      case False
      then show ?thesis
        unfolding mem star passes_patterns_def forced_exclude_always any_py_iff
        by (auto simp: fnmatch_star)
    qed
  qed
  from star a b c m show ?thesis
    by blast
qed

theorem empty_include_is_star_witness:
  "map (expand (dir_at sample_root)) (default_include (Some [])) = [''*'']
   \<and> collect_files sample_root (Some []) None 1048576 True True
     = collect_files sample_root (Some [''*'']) None 1048576 True True
   \<and> collect_files sample_root (Some []) None 1048576 True True
     = Inr [\<lparr>fpath = [''src'', ''a.py''], fsize = 2, mtime = 0\<rparr>]"
proof -
  have h: "Some [] = None \<or> Some [] = Some ([] :: string list)"
    by simp
  have v: "collect_files sample_root (Some [''*'']) None 1048576 True True
           = Inr [\<lparr>fpath = [''src'', ''a.py''], fsize = 2, mtime = 0\<rparr>]"
    unfolding sample_root_def text_file_def by code_simp
  from empty_include_is_star [OF h, where d = "dir_at sample_root" and r = sample_root
      and exc = None and ms = 1048576 and bs = True and ug = True]
  have "map (expand (dir_at sample_root)) (default_include (Some [])) = [''*'']"
    and "collect_files sample_root (Some []) None 1048576 True True
         = collect_files sample_root (Some [''*'']) None 1048576 True True"
    by blast+
  with v show ?thesis
    by simp
qed

section \<open>Aggregates\<close>

lemma calc_size_props:
  "fst (calc_size t) = (file_sizes t, file_tokens t)
   \<and> nsize (snd (calc_size t)) = file_sizes t
   \<and> tokens (snd (calc_size t)) = file_tokens t
   \<and> file_sizes (snd (calc_size t)) = file_sizes t
   \<and> file_tokens (snd (calc_size t)) = file_tokens t
   \<and> is_dir (snd (calc_size t)) = is_dir t
   \<and> name (snd (calc_size t)) = name t
   \<and> aggregates_ok (snd (calc_size t))"
proof (induction t)
  case (TreeNode n p d s t cs)
  have a: "map (\<lambda>r. fst (fst r)) (map calc_size cs) = map file_sizes cs"
    using TreeNode.IH by (simp add: comp_def)
  have b: "map (\<lambda>r. snd (fst r)) (map calc_size cs) = map file_tokens cs"
    using TreeNode.IH by (simp add: comp_def)
  have c: "map file_sizes (map snd (map calc_size cs)) = map file_sizes cs"
    using TreeNode.IH by (simp add: comp_def)
  have e: "map file_tokens (map snd (map calc_size cs)) = map file_tokens cs"
    using TreeNode.IH by (simp add: comp_def)
  have f: "\<forall>c \<in> set (map snd (map calc_size cs)). aggregates_ok c"
    using TreeNode.IH by simp
  show ?case
  proof (cases d)
    case True
    then show ?thesis
      using a b c e f by (simp add: Let_def del: map_map)
  next
    case False
    then show ?thesis by simp
  qed
qed

lemma mset_order_children: "mset (order_children sort_by dirs_first cs) = mset cs"
  by (simp add: order_children_def sort_nodes_def Let_def)

lemma sum_order_children:
  "sum_list (map f (order_children sort_by dirs_first cs)) = sum_list (map (f :: TreeNode \<Rightarrow> int) cs)"
proof -
  have "mset (map f (order_children sort_by dirs_first cs)) = mset (map f cs)"
    by (simp add: mset_order_children)
  then show ?thesis
    by (metis sum_mset_sum_list)
qed

lemma sort_children_props:
  "name (sort_children sb df t) = name t
   \<and> path (sort_children sb df t) = path t
   \<and> is_dir (sort_children sb df t) = is_dir t
   \<and> nsize (sort_children sb df t) = nsize t
   \<and> tokens (sort_children sb df t) = tokens t
   \<and> file_sizes (sort_children sb df t) = file_sizes t
   \<and> file_tokens (sort_children sb df t) = file_tokens t
   \<and> (aggregates_ok t \<longrightarrow> aggregates_ok (sort_children sb df t))"
proof (induction sb df t rule: sort_children.induct)
  case (1 sb df n p d s t cs)
  let ?g = "\<lambda>child. if is_dir child then sort_children sb df child else child"
  let ?o = "order_children sb df cs"
  have ih: "\<And>c. c \<in> set ?o \<Longrightarrow> file_sizes (?g c) = file_sizes c \<and> file_tokens (?g c) = file_tokens c
              \<and> (aggregates_ok c \<longrightarrow> aggregates_ok (?g c))"
    using "1.IH" by simp
  have a: "map file_sizes (map ?g ?o) = map file_sizes ?o"
    using ih by simp
  have b: "map file_tokens (map ?g ?o) = map file_tokens ?o"
    using ih by simp
  have c: "\<forall>c \<in> set (map ?g ?o). aggregates_ok c" if h: "\<forall>c \<in> set cs. aggregates_ok c"
  proof -
    have "aggregates_ok (?g x)" if x: "x \<in> set ?o" for x
    proof -
      from x have "x \<in> set cs"
        by (simp add: set_order_children)
      with h have "aggregates_ok x"
        by blast
      with ih [OF x] show ?thesis
        by blast
    qed
    then show ?thesis
      unfolding set_map by blast
  qed
  show ?case
    using a b c by (simp add: sum_order_children del: map_map)
qed


lemma find_dir_Some:
  "find_dir x cs = Some i \<Longrightarrow> i < length cs \<and> name (cs ! i) = x \<and> is_dir (cs ! i)"
proof (induction cs arbitrary: i)
  case Nil
  then show ?case by simp
next
  case (Cons c cs)
  then show ?case
    by (auto split: if_splits)
qed

lemma sum_list_map_update:
  "i < length cs \<Longrightarrow>
   sum_list (map f (cs[i := c])) = sum_list (map (f :: TreeNode \<Rightarrow> int) cs) - f (cs ! i) + f c"
proof (induction cs arbitrary: i)
  case Nil
  then show ?case by simp
next
  case (Cons a cs)
  then show ?case
    by (cases i) simp_all
qed

lemma add_to_tree_sums:
  "is_dir node \<Longrightarrow> add_to_tree node parts file_info = Inr node' \<Longrightarrow> file_info = Some fi \<Longrightarrow>
   is_dir node' \<and> name node' = name node
   \<and> file_sizes node' = file_sizes node + fsize fi
   \<and> file_tokens node' = file_tokens node + fsize fi div 4"
proof (induction node parts file_info arbitrary: node' rule: add_to_tree.induct)
  case (1 node file_info)
  then show ?case by simp
next
  case (2 node p file_info)
  then show ?case
    by (cases node) (auto simp: set_children_def)
next
  case (3 node p q ps file_info)
  note fi = \<open>file_info = Some fi\<close>
  obtain n pa d s t cs where node: "node = TreeNode n pa d s t cs"
    by (cases node)
  show ?case
  proof (cases "find_dir p (children node)")
    case None
    with "3.prems" obtain child where
      c: "add_to_tree (TreeNode p [p] True 0 0 []) (q # ps) file_info = Inr child"
      and n': "node' = set_children node (children node @ [child])"
      by (auto split: sum.splits)
    from "3.IH"(1) [OF None _ c fi]
    have "file_sizes child = fsize fi \<and> file_tokens child = fsize fi div 4"
      by simp
    with n' "3.prems"(1) node show ?thesis
      by (simp add: set_children_def)
  next
    case (Some i)
    with "3.prems" obtain child where
      c: "add_to_tree (children node ! i) (q # ps) file_info = Inr child"
      and n': "node' = set_children node ((children node)[i := child])"
      by (auto split: sum.splits)
    from find_dir_Some [OF Some] have i: "i < length cs" "is_dir (cs ! i)"
      using node by simp_all
    from "3.IH"(2) [OF Some _ c fi] i node
    have "file_sizes child = file_sizes (cs ! i) + fsize fi
          \<and> file_tokens child = file_tokens (cs ! i) + fsize fi div 4"
      by simp
    with n' "3.prems"(1) node i show ?thesis
      by (simp add: set_children_def sum_list_map_update)
  qed
qed

lemma add_all_sums:
  "is_dir node \<Longrightarrow> add_all node files = Inr node' \<Longrightarrow>
   is_dir node'
   \<and> file_sizes node' = file_sizes node + sum_list (map fsize files)
   \<and> file_tokens node' = file_tokens node + sum_list (map (\<lambda>f. fsize f div 4) files)"
proof (induction files arbitrary: node)
  case Nil
  then show ?case by simp
next
  case (Cons f files)
  from Cons.prems obtain mid where
    m: "add_to_tree node (fpath f) (Some f) = Inr mid" and r: "add_all mid files = Inr node'"
    by (auto split: sum.splits)
  from add_to_tree_sums [OF Cons.prems(1) m refl] Cons.IH [OF _ r] show ?case
    by simp
qed

lemma pruned_from_refl: "pruned_from t t"
  by (induction t) (auto simp: list_all2_same)

lemma trim_depth_pruned: "pruned_from (trim_depth m t k) t"
proof (induction m t k rule: trim_depth.induct)
  case (1 m n p d s t cs k)
  show ?case
  proof (cases "k \<ge> m")
    case True
    then show ?thesis by simp
  next
    case False
    have "list_all2 pruned_from
            (map (\<lambda>child. if is_dir child then trim_depth m child (k + 1) else child) cs) cs"
      using "1.IH" [OF False] by (auto simp: list_all2_map1 list_all2_same pruned_from_refl)
    with False show ?thesis by simp
  qed
qed

lemma mset_concat_map: "mset (concat (map f xs)) = sum_list (map (\<lambda>x. mset (f x)) xs)"
  by (induction xs) simp_all

lemma nleaves_dir: "is_dir c \<Longrightarrow> nleaves c = map (\<lambda>(q, z). (name c # q, z)) (leaves c)"
  by (cases c) (simp add: leaves_def)

lemma leaves_set_children: "leaves (set_children node cs) = concat (map nleaves cs)"
  by (simp add: leaves_def set_children_def)

lemma mset_concat_update:
  assumes i: "i < length cs"
  shows "mset (concat (map f (cs[i := c]))) + mset (f (cs ! i))
         = mset (concat (map f cs)) + mset (f c)"
proof -
  have a: "cs[i := c] = take i cs @ c # drop (Suc i) cs"
    by (rule upd_conv_take_nth_drop [OF i])
  have b: "concat (map f cs) = concat (map f (take i cs @ cs ! i # drop (Suc i) cs))"
    using id_take_nth_drop [OF i] by simp
  show ?thesis
    unfolding a b by simp
qed

lemma add_to_tree_leaves:
  "is_dir node \<Longrightarrow> add_to_tree node parts file_info = Inr node' \<Longrightarrow> file_info = Some fi \<Longrightarrow>
   is_dir node' \<and> name node' = name node
   \<and> mset (leaves node') = mset (leaves node) + {#(parts, fsize fi, fsize fi div 4)#}"
proof (induction node parts file_info arbitrary: node' rule: add_to_tree.induct)
  case (1 node file_info)
  then show ?case by simp
next
  case (2 node p file_info)
  then show ?case
    by (auto simp: leaves_def set_children_def)
next
  case (3 node p q ps file_info)
  note d = \<open>is_dir node\<close> and fi = \<open>file_info = Some fi\<close>
  let ?cs = "children node"
  show ?case
  proof (cases "find_dir p ?cs")
    case None
    let ?fresh = "TreeNode p [p] True 0 0 []"
    from "3.prems"(2) None obtain child where
      c: "add_to_tree ?fresh (q # ps) file_info = Inr child"
      and n': "node' = set_children node (?cs @ [child])"
      by (auto split: sum.splits)
    from "3.IH"(1) [OF None _ c fi]
    have ch: "is_dir child" "name child = p"
        "mset (leaves child) = {#(q # ps, fsize fi, fsize fi div 4)#}"
      by (simp_all add: leaves_def)
    have "mset (nleaves child) = {#(p # q # ps, fsize fi, fsize fi div 4)#}"
      unfolding nleaves_dir [OF ch(1)] ch(2) mset_map ch(3) by simp
    then show ?thesis
      unfolding n' using d by (simp add: leaves_set_children set_children_def leaves_def)
  next
    case (Some i)
    from "3.prems"(2) Some obtain child where
      c: "add_to_tree (?cs ! i) (q # ps) file_info = Inr child"
      and n': "node' = set_children node (?cs[i := child])"
      by (auto split: sum.splits)
    from find_dir_Some [OF Some] have i: "i < length ?cs" "name (?cs ! i) = p" "is_dir (?cs ! i)"
      by simp_all
    from "3.IH"(2) [OF Some i(3) c fi] i
    have ch: "is_dir child" "name child = p"
        "mset (leaves child) = mset (leaves (?cs ! i)) + {#(q # ps, fsize fi, fsize fi div 4)#}"
      by simp_all
    have "mset (nleaves child) = mset (nleaves (?cs ! i)) + {#(p # q # ps, fsize fi, fsize fi div 4)#}"
      unfolding nleaves_dir [OF ch(1)] nleaves_dir [OF i(3)] ch(2) i(2) mset_map ch(3) by simp
    with mset_concat_update [OF i(1), of nleaves child]
    have "mset (concat (map nleaves (?cs[i := child])))
          = mset (concat (map nleaves ?cs)) + {#(p # q # ps, fsize fi, fsize fi div 4)#}"
      by (simp add: ac_simps)
    then show ?thesis
      unfolding n' using d by (simp add: leaves_set_children set_children_def leaves_def)
  qed
qed

lemma add_all_leaves:
  "is_dir node \<Longrightarrow> add_all node files = Inr node' \<Longrightarrow>
   is_dir node'
   \<and> mset (leaves node') = mset (leaves node) + mset (map (\<lambda>f. (fpath f, fsize f, fsize f div 4)) files)"
proof (induction files arbitrary: node)
  case Nil
  then show ?case by simp
next
  case (Cons f files)
  from Cons.prems obtain mid where
    m: "add_to_tree node (fpath f) (Some f) = Inr mid" and r: "add_all mid files = Inr node'"
    by (auto split: sum.splits)
  from add_to_tree_leaves [OF Cons.prems(1) m refl] Cons.IH [OF _ r] show ?case
    by simp
qed

lemma calc_size_nleaves: "nleaves (snd (calc_size t)) = nleaves t"
proof (induction t)
  case (TreeNode n p d s t cs)
  have "map nleaves (map snd (map calc_size cs)) = map nleaves cs"
    using TreeNode by simp
  then show ?case
    by (simp add: Let_def del: map_map)
qed

lemma mset_concat_order_children:
  "mset (concat (map f (order_children sb df cs))) = mset (concat (map f cs))"
proof -
  have "mset (order_children sb df cs) = mset cs"
    by (simp add: order_children_def sort_nodes_def Let_def)
  then have "mset (map (\<lambda>c. mset (f c)) (order_children sb df cs)) = mset (map (\<lambda>c. mset (f c)) cs)"
    by simp
  then have "sum_list (map (\<lambda>c. mset (f c)) (order_children sb df cs)) = sum_list (map (\<lambda>c. mset (f c)) cs)"
    by (metis sum_mset_sum_list)
  then show ?thesis
    by (simp only: mset_concat_map)
qed

lemma sort_children_leaves:
  "mset (nleaves (sort_children sb df t)) = mset (nleaves t)
   \<and> mset (leaves (sort_children sb df t)) = mset (leaves t)"
proof (induction sb df t rule: sort_children.induct)
  case (1 sb df n p d s t cs)
  let ?g = "\<lambda>child. if is_dir child then sort_children sb df child else child"
  let ?o = "order_children sb df cs"
  have "map (\<lambda>c. mset (nleaves (?g c))) ?o = map (\<lambda>c. mset (nleaves c)) ?o"
    using "1.IH" by (intro map_cong) auto
  then have "mset (concat (map (\<lambda>c. nleaves (?g c)) ?o)) = mset (concat (map nleaves ?o))"
    by (simp only: mset_concat_map)
  also have "\<dots> = mset (concat (map nleaves cs))"
    by (rule mset_concat_order_children)
  finally have e: "mset (concat (map nleaves (map ?g ?o))) = mset (concat (map nleaves cs))"
    by (simp only: map_map comp_def)
  then have "mset (map (\<lambda>(q, z). (n # q, z)) (concat (map nleaves (map ?g ?o))))
             = mset (map (\<lambda>(q, z). (n # q, z)) (concat (map nleaves cs)))"
    by (simp only: mset_map)
  with e show ?case
    by (simp add: leaves_def del: map_map)
qed

lemma calc_size_leaves: "leaves (snd (calc_size t)) = leaves t"
proof (cases t)
  case (TreeNode n p d s tk cs)
  have "map nleaves (map snd (map calc_size cs)) = map nleaves cs"
    by (simp add: calc_size_nleaves)
  then show ?thesis
    unfolding TreeNode by (simp add: leaves_def Let_def del: map_map)
qed

text \<open>
  C4. In the tree that \<open>build_tree\<close> returns without a depth limit, every directory
  carries the sum of the sizes, and of the token counts, of the files below it; the
  files of the tree are the files of the input, each at its path with its size and a
  quarter of it as tokens, and the root carries the sums over the whole input. With a
  depth limit \<open>build_tree\<close> returns that tree with the children of some directories
  cleared: the nodes that are left keep their size and token totals.
\<close>

theorem aggregates_survive_pruning:
  assumes "build_tree files root_dir None sort_by dirs_first = Inr tree"
  shows "aggregates_ok tree
         \<and> mset (leaves tree) = mset (map (\<lambda>f. (fpath f, fsize f, fsize f div 4)) files)
         \<and> nsize tree = sum_list (map fsize files)
         \<and> tokens tree = sum_list (map (\<lambda>f. fsize f div 4) files)
         \<and> (\<forall>m. \<exists>pruned. build_tree files root_dir (Some m) sort_by dirs_first = Inr pruned
                  \<and> pruned_from pruned tree)"
proof -
  let ?root = "TreeNode (if path_name root_dir \<noteq> [] then path_name root_dir else path_str root_dir)
                 root_dir True 0 0 []"
  from assms obtain added where
    added: "add_all ?root files = Inr added"
    and tree: "tree = sort_children sort_by dirs_first (snd (calc_size added))"
    by (auto simp: build_tree_def Let_def split: sum.splits)
  from add_all_sums [OF _ added]
  have sums: "file_sizes added = sum_list (map fsize files)"
    "file_tokens added = sum_list (map (\<lambda>f. fsize f div 4) files)"
    by simp_all
  have "aggregates_ok tree"
    unfolding tree using sort_children_props [of sort_by dirs_first "snd (calc_size added)"]
      calc_size_props [of added] by blast
  moreover have "mset (leaves tree) = mset (map (\<lambda>f. (fpath f, fsize f, fsize f div 4)) files)"
  proof -
    have "mset (leaves tree) = mset (leaves added)"
      unfolding tree by (simp only: sort_children_leaves calc_size_leaves)
    also have "\<dots> = mset (leaves ?root) + mset (map (\<lambda>f. (fpath f, fsize f, fsize f div 4)) files)"
      using add_all_leaves [OF _ added] by simp
    finally show ?thesis
      by (simp add: leaves_def)
  qed
  moreover have "nsize tree = sum_list (map fsize files)"
    unfolding tree by (simp add: sort_children_props calc_size_props sums)
  moreover have "tokens tree = sum_list (map (\<lambda>f. fsize f div 4) files)"
    unfolding tree by (simp add: sort_children_props calc_size_props sums)
  moreover have "\<exists>pruned. build_tree files root_dir (Some m) sort_by dirs_first = Inr pruned
                   \<and> pruned_from pruned tree" for m
    unfolding tree using added by (simp add: build_tree_def Let_def trim_depth_pruned)
  ultimately show ?thesis
    by blast
qed

theorem aggregates_survive_pruning_witness:
  "aggregates_ok
     (TreeNode ''repo'' [''repo''] True 20 3
        [TreeNode ''a'' [''a''] True 17 3
           [TreeNode ''c'' [''c''] True 7 1 [TreeNode ''d'' [''d''] False 7 1 []],
            TreeNode ''b.txt'' [''b.txt''] False 10 2 []],
         TreeNode ''B'' [''B''] False 3 0 []])
   \<and> (\<exists>pruned. build_tree sample_files [''repo''] (Some 1) ''name'' True = Inr pruned
         \<and> pruned_from pruned
              (TreeNode ''repo'' [''repo''] True 20 3
                 [TreeNode ''a'' [''a''] True 17 3
                    [TreeNode ''c'' [''c''] True 7 1 [TreeNode ''d'' [''d''] False 7 1 []],
                     TreeNode ''b.txt'' [''b.txt''] False 10 2 []],
                  TreeNode ''B'' [''B''] False 3 0 []]))"
proof -
  let ?t = "TreeNode ''repo'' [''repo''] True 20 3
        [TreeNode ''a'' [''a''] True 17 3
           [TreeNode ''c'' [''c''] True 7 1 [TreeNode ''d'' [''d''] False 7 1 []],
            TreeNode ''b.txt'' [''b.txt''] False 10 2 []],
         TreeNode ''B'' [''B''] False 3 0 []]"
  have h: "build_tree sample_files [''repo''] None ''name'' True = Inr ?t"
    unfolding sample_files_def file_of_def by code_simp
  from aggregates_survive_pruning [OF h] show ?thesis
    by blast
qed

section \<open>Sibling names\<close>

lemma find_dir_None:
  "find_dir x cs = None \<Longrightarrow> c \<in> set cs \<Longrightarrow> name c = x \<Longrightarrow> \<not> is_dir c"
  by (induction cs) (auto split: if_splits)

lemma npaths_dir: "is_dir c \<Longrightarrow> npaths c = map ((#) (name c)) (below c)"
  by (cases c) (simp add: below_def)

lemma npaths_file: "\<not> is_dir c \<Longrightarrow> npaths c = [[name c]]"
  by (cases c) simp

lemma npaths_hd: "r \<in> set (npaths c) \<Longrightarrow> \<exists>q. r = name c # q"
  by (cases c) (auto split: if_splits)

lemma set_below: "set (below node) = (\<Union>c \<in> set (children node). set (npaths c))"
  by (simp add: below_def)

lemma tree_inv_dir:
  "is_dir node \<Longrightarrow> tree_inv node \<longleftrightarrow>
     distinct (map name (children node))
     \<and> (\<forall>c \<in> set (children node). tree_inv c \<and> npaths c \<noteq> [])"
  by (cases node) simp

lemma name_clash:
  assumes inv: "tree_inv node" and d: "is_dir node"
    and c: "c \<in> set (children node)" and n: "name c = x"
  shows "\<exists>r \<in> set (below node). prefix [x] r"
proof -
  from inv d c have "npaths c \<noteq> []"
    by (simp add: tree_inv_dir)
  then obtain r where r: "r \<in> set (npaths c)"
    by (cases "npaths c") auto
  with npaths_hd n obtain q where "r = x # q"
    by blast
  then have "prefix [x] r"
    by simp
  moreover from r c have "r \<in> set (below node)"
    by (auto simp: set_below)
  ultimately show ?thesis
    by blast
qed


lemma set_children_sel:
  "name (set_children node cs) = name node" "is_dir (set_children node cs) = is_dir node"
  "children (set_children node cs) = cs"
  by (simp_all add: set_children_def)

lemma below_update:
  assumes i: "i < length cs"
  shows "set (concat (map npaths (cs[i := c])))
         = set (concat (map npaths (take i cs))) \<union> set (npaths c)
           \<union> set (concat (map npaths (drop (Suc i) cs)))"
  by (simp add: upd_conv_take_nth_drop [OF i] Un_assoc)

lemma below_split:
  assumes i: "i < length cs"
  shows "set (concat (map npaths cs))
         = set (concat (map npaths (take i cs))) \<union> set (npaths (cs ! i))
           \<union> set (concat (map npaths (drop (Suc i) cs)))"
proof -
  have "concat (map npaths cs) = concat (map npaths (take i cs @ cs ! i # drop (Suc i) cs))"
    using id_take_nth_drop [OF i] by simp
  then have "set (concat (map npaths cs))
             = set (concat (map npaths (take i cs @ cs ! i # drop (Suc i) cs)))"
    by simp
  then show ?thesis
    by (simp add: Un_assoc)
qed

lemma add_to_tree_inv:
  "is_dir node \<Longrightarrow> tree_inv node \<Longrightarrow> add_to_tree node parts file_info = Inr node' \<Longrightarrow>
   file_info = Some fi \<Longrightarrow>
   (\<forall>r \<in> set (below node). \<not> prefix r parts \<and> \<not> prefix parts r) \<Longrightarrow>
   is_dir node' \<and> name node' = name node \<and> tree_inv node'
   \<and> set (below node') = insert parts (set (below node))"
proof (induction node parts file_info arbitrary: node' rule: add_to_tree.induct)
  case (1 node file_info)
  then show ?case by simp
next
  case (2 node p file_info)
  note d = \<open>is_dir node\<close> and inv = \<open>tree_inv node\<close>
  let ?child = "TreeNode p [p] False (fsize fi) (fsize fi div 4) []"
  from "2.prems" have n': "node' = set_children node (children node @ [?child])"
    by simp
  have fresh: "p \<notin> set (map name (children node))"
  proof
    assume "p \<in> set (map name (children node))"
    then obtain c where "c \<in> set (children node)" "name c = p"
      by auto
    from name_clash [OF inv d this] "2.prems"(5) show False
      by blast
  qed
  from inv d have "distinct (map name (children node))"
      "\<forall>c \<in> set (children node). tree_inv c \<and> npaths c \<noteq> []"
    by (simp_all add: tree_inv_dir)
  with d fresh have "tree_inv node'"
    unfolding n' by (simp add: tree_inv_dir set_children_sel)
  moreover have "set (below node') = insert [p] (set (below node))"
    unfolding n' by (simp add: below_def set_children_sel)
  ultimately show ?case
    using d n' by (simp add: set_children_sel)
next
  case (3 node p q ps file_info)
  note d = \<open>is_dir node\<close> and inv = \<open>tree_inv node\<close> and fi = \<open>file_info = Some fi\<close>
  note cond = \<open>\<forall>r \<in> set (below node). \<not> prefix r (p # q # ps) \<and> \<not> prefix (p # q # ps) r\<close>
  let ?cs = "children node"
  show ?case
  proof (cases "find_dir p ?cs")
    case None
    let ?fresh = "TreeNode p [p] True 0 0 []"
    from "3.prems"(3) None obtain child where
      c: "add_to_tree ?fresh (q # ps) file_info = Inr child"
      and n': "node' = set_children node (?cs @ [child])"
      by (auto split: sum.splits)
    have "is_dir child \<and> name child = name ?fresh \<and> tree_inv child
          \<and> set (below child) = insert (q # ps) (set (below ?fresh))"
      by (rule "3.IH"(1) [OF None _ _ c fi]) (simp_all add: below_def)
    then have ch: "is_dir child" "name child = p" "tree_inv child" "set (below child) = {q # ps}"
      by (simp_all add: below_def)
    have fresh: "p \<notin> set (map name ?cs)"
    proof
      assume "p \<in> set (map name ?cs)"
      then obtain c where c: "c \<in> set ?cs" "name c = p"
        by auto
      with find_dir_None [OF None] have "\<not> is_dir c"
        by blast
      with c have "[p] \<in> set (npaths c)"
        by (simp add: npaths_file)
      with c have "[p] \<in> set (below node)"
        unfolding set_below by blast
      with cond show False
        by auto
    qed
    have np: "set (npaths child) = {p # q # ps}"
      using ch by (simp add: npaths_dir)
    have "npaths child \<noteq> []"
    proof
      assume "npaths child = []"
      with np show False
        by simp
    qed
    moreover from inv d have "distinct (map name ?cs)"
        "\<forall>c \<in> set ?cs. tree_inv c \<and> npaths c \<noteq> []"
      by (simp_all add: tree_inv_dir)
    ultimately have "tree_inv node'"
      unfolding n' using d fresh ch(2,3) by (simp add: tree_inv_dir set_children_sel)
    moreover have "set (below node') = insert (p # q # ps) (set (below node))"
      unfolding n' using np by (simp add: below_def set_children_sel)
    ultimately show ?thesis
      using d n' by (simp add: set_children_sel)
  next
    case (Some i)
    from "3.prems"(3) Some obtain child where
      c: "add_to_tree (?cs ! i) (q # ps) file_info = Inr child"
      and n': "node' = set_children node (?cs[i := child])"
      by (auto split: sum.splits)
    from find_dir_Some [OF Some] have i: "i < length ?cs" "name (?cs ! i) = p" "is_dir (?cs ! i)"
      by simp_all
    from i(1) have mem: "?cs ! i \<in> set ?cs"
      by simp
    with inv d have inv_i: "tree_inv (?cs ! i)"
      by (simp add: tree_inv_dir)
    have "set (npaths (?cs ! i)) = (#) p ` set (below (?cs ! i))"
      using i by (simp add: npaths_dir)
    moreover from mem have "set (npaths (?cs ! i)) \<subseteq> set (below node)"
      unfolding set_below by blast
    ultimately have sub: "(#) p ` set (below (?cs ! i)) \<subseteq> set (below node)"
      by simp
    have cond_i: "\<forall>r \<in> set (below (?cs ! i)). \<not> prefix r (q # ps) \<and> \<not> prefix (q # ps) r"
    proof
      fix r assume "r \<in> set (below (?cs ! i))"
      with sub have "p # r \<in> set (below node)"
        by blast
      with cond show "\<not> prefix r (q # ps) \<and> \<not> prefix (q # ps) r"
        by auto
    qed
    have "is_dir child \<and> name child = name (?cs ! i) \<and> tree_inv child
          \<and> set (below child) = insert (q # ps) (set (below (?cs ! i)))"
      by (rule "3.IH"(2) [OF Some i(3) inv_i c fi cond_i])
    then have ch: "is_dir child" "name child = p" "tree_inv child"
        "set (below child) = insert (q # ps) (set (below (?cs ! i)))"
      using i by simp_all
    have names: "map name (?cs[i := child]) = map name ?cs"
      using i ch by (simp add: map_update list_update_same_conv)
    have np: "set (npaths child) = insert (p # q # ps) (set (npaths (?cs ! i)))"
      using ch i by (simp add: npaths_dir)
    have ne: "npaths child \<noteq> []"
    proof
      assume "npaths child = []"
      with np show False
        by simp
    qed
    have all: "\<forall>c \<in> set (?cs[i := child]). tree_inv c \<and> npaths c \<noteq> []"
    proof
      fix c assume "c \<in> set (?cs[i := child])"
      then have "c = child \<or> c \<in> set ?cs"
        using set_update_subset_insert [of ?cs i child] by auto
      with ch ne inv d show "tree_inv c \<and> npaths c \<noteq> []"
        by (auto simp: tree_inv_dir)
    qed
    from inv d have "distinct (map name ?cs)"
      by (simp add: tree_inv_dir)
    with d names all have "tree_inv node'"
      unfolding n' by (simp add: tree_inv_dir set_children_sel)
    moreover have "set (below node') = insert (p # q # ps) (set (below node))"
    proof -
      have "set (below node') = set (concat (map npaths (?cs[i := child])))"
        unfolding n' by (simp add: below_def set_children_sel)
      also have "\<dots> = set (concat (map npaths (take i ?cs))) \<union> set (npaths child)
                   \<union> set (concat (map npaths (drop (Suc i) ?cs)))"
        by (rule below_update [OF i(1)])
      also have "\<dots> = insert (p # q # ps) (set (concat (map npaths (take i ?cs)))
                   \<union> set (npaths (?cs ! i)) \<union> set (concat (map npaths (drop (Suc i) ?cs))))"
        unfolding np by blast
      also have "\<dots> = insert (p # q # ps) (set (concat (map npaths ?cs)))"
        unfolding below_split [OF i(1), symmetric] ..
      finally show ?thesis
        by (simp add: below_def)
    qed
    ultimately show ?thesis
      using d n' by (simp add: set_children_sel)
  qed
qed


lemma add_all_inv:
  "is_dir node \<Longrightarrow> tree_inv node \<Longrightarrow> distinct (map fpath files) \<Longrightarrow>
   (\<forall>f \<in> set files. \<forall>g \<in> set files. \<not> strict_prefix (fpath f) (fpath g)) \<Longrightarrow>
   (\<forall>r \<in> set (below node). \<forall>f \<in> set files. \<not> prefix r (fpath f) \<and> \<not> prefix (fpath f) r) \<Longrightarrow>
   add_all node files = Inr node' \<Longrightarrow>
   is_dir node' \<and> tree_inv node'"
proof (induction files arbitrary: node)
  case Nil
  then show ?case by simp
next
  case (Cons f files)
  from Cons.prems(6) obtain mid where
    m: "add_to_tree node (fpath f) (Some f) = Inr mid" and r: "add_all mid files = Inr node'"
    by (auto split: sum.splits)
  have "\<forall>r \<in> set (below node). \<not> prefix r (fpath f) \<and> \<not> prefix (fpath f) r"
    using Cons.prems(5) by simp
  from add_to_tree_inv [OF Cons.prems(1,2) m refl this]
  have mid: "is_dir mid" "tree_inv mid" "set (below mid) = insert (fpath f) (set (below node))"
    by simp_all
  have d: "distinct (map fpath files)"
    using Cons.prems(3) by simp
  have a: "\<forall>f \<in> set files. \<forall>g \<in> set files. \<not> strict_prefix (fpath f) (fpath g)"
    using Cons.prems(4) by simp
  have b: "\<forall>r \<in> set (below mid). \<forall>g \<in> set files. \<not> prefix r (fpath g) \<and> \<not> prefix (fpath g) r"
  proof (intro ballI)
    fix r g assume r: "r \<in> set (below mid)" and g: "g \<in> set files"
    show "\<not> prefix r (fpath g) \<and> \<not> prefix (fpath g) r"
    proof (cases "r = fpath f")
      case True
      from Cons.prems(3) g have ne: "fpath f \<noteq> fpath g"
        by auto
      from Cons.prems(4) g have "\<not> strict_prefix (fpath f) (fpath g)" "\<not> strict_prefix (fpath g) (fpath f)"
        by simp_all
      with ne True show ?thesis
        by (auto simp: strict_prefix_def)
    next
      case False
      with r mid(3) have "r \<in> set (below node)"
        by simp
      with Cons.prems(5) g show ?thesis
        by simp
    qed
  qed
  from Cons.IH [OF mid(1,2) d a b r] show ?case .
qed

lemma tree_inv_siblings: "tree_inv t \<Longrightarrow> siblings_distinct t"
  by (induction t) (auto split: if_splits)

lemma calc_size_siblings: "siblings_distinct t \<Longrightarrow> siblings_distinct (snd (calc_size t))"
proof (induction t)
  case (TreeNode n p d s t cs)
  have "map name (map snd (map calc_size cs)) = map name cs"
    by (simp add: calc_size_props)
  moreover have "\<forall>c \<in> set (map snd (map calc_size cs)). siblings_distinct c"
    using TreeNode by auto
  ultimately show ?case
    using TreeNode.prems by (simp add: Let_def del: map_map)
qed

lemma distinct_order_children:
  "distinct (map name (order_children sb df cs)) = distinct (map name cs)"
proof -
  have "mset (map name (order_children sb df cs)) = mset (map name cs)"
    by (simp add: mset_order_children)
  then show ?thesis
    by (rule mset_eq_imp_distinct_iff)
qed

lemma sort_children_siblings:
  "siblings_distinct t \<Longrightarrow> siblings_distinct (sort_children sb df t)"
proof (induction sb df t rule: sort_children.induct)
  case (1 sb df n p d s t cs)
  let ?g = "\<lambda>child. if is_dir child then sort_children sb df child else child"
  let ?o = "order_children sb df cs"
  have "map name (map ?g ?o) = map name ?o"
    by (simp add: sort_children_props)
  then have a: "distinct (map name (map ?g ?o))"
    using "1.prems" by (simp add: distinct_order_children del: map_map)
  have b: "siblings_distinct (?g x)" if x: "x \<in> set ?o" for x
  proof -
    from x have "x \<in> set cs"
      by (simp add: set_order_children)
    with "1.prems" have "siblings_distinct x"
      by simp
    with "1.IH" [OF x] show ?thesis
      by simp
  qed
  have "\<forall>c \<in> set (map ?g ?o). siblings_distinct c"
    unfolding set_map using b by blast
  with a show ?case
    by (simp del: map_map)
qed

lemma trim_depth_name: "name (trim_depth m t k) = name t"
  by (cases t) simp

lemma trim_depth_siblings:
  "siblings_distinct t \<Longrightarrow> siblings_distinct (trim_depth m t k)"
proof (induction m t k rule: trim_depth.induct)
  case (1 m n p d s t cs k)
  let ?g = "\<lambda>child. if is_dir child then trim_depth m child (k + 1) else child"
  show ?case
  proof (cases "k \<ge> m")
    case True
    then show ?thesis by simp
  next
    case False
    have "map name (map ?g cs) = map name cs"
      by (simp add: trim_depth_name)
    then have a: "distinct (map name (map ?g cs))"
      using "1.prems" by (simp del: map_map)
    have "siblings_distinct (?g x)" if x: "x \<in> set cs" for x
      using "1.IH" [OF False x] "1.prems" x by simp
    then have "\<forall>c \<in> set (map ?g cs). siblings_distinct c"
      unfolding set_map by blast
    with a False show ?thesis
      by (simp del: map_map)
  qed
qed

text \<open>
  C5, as the code has it. A list that repeats a relative path, or that holds a file and
  a file below a directory of the same name, gives two children with one name.
\<close>

theorem siblings_share_a_name:
  "build_tree [file_of [''a''] 1, file_of [''a''] 2] [''repo''] None ''name'' True
     = Inr (TreeNode ''repo'' [''repo''] True 3 0
              [TreeNode ''a'' [''a''] False 1 0 [], TreeNode ''a'' [''a''] False 2 0 []])
   \<and> \<not> siblings_distinct
          (TreeNode ''repo'' [''repo''] True 3 0
             [TreeNode ''a'' [''a''] False 1 0 [], TreeNode ''a'' [''a''] False 2 0 []])
   \<and> build_tree [file_of [''a''] 1, file_of [''a'', ''b''] 2] [''repo''] None ''name'' True
     = Inr (TreeNode ''repo'' [''repo''] True 3 0
              [TreeNode ''a'' [''a''] True 2 0 [TreeNode ''b'' [''b''] False 2 0 []],
               TreeNode ''a'' [''a''] False 1 0 []])
   \<and> \<not> siblings_distinct
          (TreeNode ''repo'' [''repo''] True 3 0
             [TreeNode ''a'' [''a''] True 2 0 [TreeNode ''b'' [''b''] False 2 0 []],
              TreeNode ''a'' [''a''] False 1 0 []])"
  unfolding file_of_def by code_simp

text \<open>
  C5, amended. When no relative path occurs twice in the input and no path of the input
  is the beginning of another one (no name is a file and a directory at one place), no
  two siblings of the tree that \<open>build_tree\<close> returns share a name, with or without a
  depth limit and in every sort order.
\<close>

theorem siblings_distinct_for_file_system_lists:
  assumes "distinct (map fpath files)"
    and "\<forall>f \<in> set files. \<forall>g \<in> set files. \<not> strict_prefix (fpath f) (fpath g)"
    and "build_tree files root_dir max_depth sort_by dirs_first = Inr tree"
  shows "siblings_distinct tree"
proof -
  let ?root = "TreeNode (if path_name root_dir \<noteq> [] then path_name root_dir else path_str root_dir)
                 root_dir True 0 0 []"
  from assms(3) obtain added where
    added: "add_all ?root files = Inr added"
    and tree: "tree = (case max_depth of
                         None \<Rightarrow> sort_children sort_by dirs_first (snd (calc_size added))
                       | Some m \<Rightarrow> trim_depth m (sort_children sort_by dirs_first (snd (calc_size added))) 0)"
    by (auto simp: build_tree_def Let_def split: sum.splits)
  have "is_dir added \<and> tree_inv added"
    by (rule add_all_inv [OF _ _ assms(1,2) _ added]) (simp_all add: below_def)
  then have "siblings_distinct added"
    by (simp add: tree_inv_siblings)
  then have "siblings_distinct (sort_children sort_by dirs_first (snd (calc_size added)))"
    by (intro sort_children_siblings calc_size_siblings)
  then show ?thesis
    unfolding tree by (cases max_depth) (simp_all add: trim_depth_siblings)
qed

theorem siblings_distinct_for_file_system_lists_witness:
  "siblings_distinct
     (TreeNode ''repo'' [''repo''] True 20 3
        [TreeNode ''a'' [''a''] True 17 3
           [TreeNode ''c'' [''c''] True 7 1 [TreeNode ''d'' [''d''] False 7 1 []],
            TreeNode ''b.txt'' [''b.txt''] False 10 2 []],
         TreeNode ''B'' [''B''] False 3 0 []])"
proof -
  let ?t = "TreeNode ''repo'' [''repo''] True 20 3
        [TreeNode ''a'' [''a''] True 17 3
           [TreeNode ''c'' [''c''] True 7 1 [TreeNode ''d'' [''d''] False 7 1 []],
            TreeNode ''b.txt'' [''b.txt''] False 10 2 []],
         TreeNode ''B'' [''B''] False 3 0 []]"
  have d: "distinct (map fpath sample_files)"
    by (simp add: sample_files_def file_of_def)
  have a: "\<forall>f \<in> set sample_files. \<forall>g \<in> set sample_files. \<not> strict_prefix (fpath f) (fpath g)"
    by (simp add: sample_files_def file_of_def)
  have h: "build_tree sample_files [''repo''] None ''name'' True = Inr ?t"
    unfolding sample_files_def file_of_def by code_simp
  show ?thesis
    by (rule siblings_distinct_for_file_system_lists [OF d a h])
qed

section \<open>The view at depth one\<close>

text \<open>
  C1, as the code has it. For the one file \<open>a/b.txt\<close> of size 10 and \<open>max_depth = 1\<close>
  the view shows the root and the directory \<open>a\<close> with the size 10, and no line for
  \<open>b.txt\<close>; its summary counts the nodes of the pruned tree and reads
  \<open>1 directories, 0 files\<close>, not \<open>1 directories, 1 files\<close>. No size reaches 1024, so
  the rendering of quotients is not called.
\<close>

theorem depth_one_summary_has_no_file:
  "generate_tree_view (\<lambda>a b. []) [file_of [''a'', ''b.txt''] 10] [''repo''] (Some 1) True True ''name'' True
     = Inr (join [CHR 0x0A]
              [connector_last @ ''[        10] repo'',
               ''    '' @ connector_last @ ''[        10] a'',
               [],
               ''1 directories, 0 files''])
   \<and> generate_tree_view (\<lambda>a b. []) [file_of [''a'', ''b.txt''] 10] [''repo''] (Some 1) True True ''name'' True
     \<noteq> Inr (join [CHR 0x0A]
              [connector_last @ ''[        10] repo'',
               ''    '' @ connector_last @ ''[        10] a'',
               [],
               ''1 directories, 1 files''])"
  unfolding file_of_def by code_simp

lemma build_depth_one:
  "build_tree [\<lparr>fpath = [''a'', ''b.txt''], fsize = 10, mtime = mt\<rparr>] [''repo''] (Some 1) sort_by dirs_first
     = Inr (TreeNode ''repo'' [''repo''] True 10 2 [TreeNode ''a'' [''a''] True 10 2 []])"
  by (simp add: build_tree_def path_name_def path_str_def set_children_def Let_def
        order_children_def sort_nodes_def)

lemma str_int_small:
  "rjust 10 (str_int 10) = ''        10''" "str_int 1 = ''1''" "str_int 0 = ''0''"
  by code_simp+

text \<open>
  C1, amended. For the file list that holds \<open>a/b.txt\<close> of size 10 alone, with
  \<open>max_depth = 1\<close>, whatever the sort order and the other options: the view has a line
  for the directory \<open>a\<close> and none for \<open>b.txt\<close>, the summary reports 1 directory and 0
  files, and with \<open>show_size\<close> on the size shown for \<open>a\<close> is 10.
\<close>

theorem depth_one_view:
  "generate_tree_view f1 [\<lparr>fpath = [''a'', ''b.txt''], fsize = 10, mtime = mt\<rparr>] [''repo''] (Some 1)
       show_tokens True sort_by dirs_first
     = Inr (join [CHR 0x0A]
              [connector_last @ ''[        10] repo'',
               ''    '' @ connector_last @ ''[        10] a'',
               [],
               ''1 directories, 0 files''])
   \<and> generate_tree_view f1 [\<lparr>fpath = [''a'', ''b.txt''], fsize = 10, mtime = mt\<rparr>] [''repo''] (Some 1)
       show_tokens False sort_by dirs_first
     = Inr (join [CHR 0x0A]
              [connector_last @ ''repo'',
               ''    '' @ connector_last @ ''a'',
               [],
               ''1 directories, 0 files''])"
  by (simp add: generate_tree_view_def build_depth_one format_size_def str_int_small Let_def)

end
